theory Spec2Isabelle
  imports Complex_Main "HOL-Library.Word"
begin

unbundle bit_operations_syntax

section \<open>The scene.org music player front end (static/app.js)\<close>

text \<open>
  A shallow embedding of \<^verbatim>\<open>static/app.js\<close>. The script is event driven: every
  handler runs to completion on one thread, and an \<^verbatim>\<open>async\<close> function runs up to
  its \<^verbatim>\<open>await\<close>, returns, and is resumed when the awaited promise settles. Each
  \<^verbatim>\<open>async\<close> function \<open>f\<close> of the script is therefore two functions here: \<open>f\<close>, the
  part that runs when \<open>f\<close> is called (it ends with the request handed to \<^verbatim>\<open>fetch\<close>),
  and \<open>f_resume\<close>, the part that runs when the response arrives, on the state the page
  has at that moment.

  Strings are lists of 8-bit code units, that is the Latin-1 part of the strings of
  JavaScript; \<^verbatim>\<open>length\<close> and \<^verbatim>\<open>charCodeAt\<close> count code units as they do there.
\<close>

subsection \<open>Numbers and their rendering\<close>

text \<open>
  The decimal digits of an integer, with a minus sign for a negative value: what
  \<^verbatim>\<open>Number.prototype.toString\<close> prints for an integer of magnitude below \<open>2\<^sup>5\<^sup>3\<close>.
\<close>

definition digit_char :: "nat \<Rightarrow> char" where
  "digit_char d = char_of (48 + d)"

function nat_to_string :: "nat \<Rightarrow> string" where
  "nat_to_string n =
     (if n < 10 then [digit_char n]
      else nat_to_string (n div 10) @ [digit_char (n mod 10)])"
  by pat_completeness auto
termination
  by (relation "measure id") auto

definition int_to_string :: "int \<Rightarrow> string" where
  "int_to_string i =
     (if i < 0 then CHR ''-'' # nat_to_string (nat (- i)) else nat_to_string (nat i))"

text \<open>\<^verbatim>\<open>String.prototype.padStart(n, fill)\<close> for a one-character \<open>fill\<close>.\<close>

definition padStart :: "nat \<Rightarrow> char \<Rightarrow> string \<Rightarrow> string" where
  "padStart n fill s = replicate (n - length s) fill @ s"

text \<open>
  A value of type Number: the two infinities, NaN, or a finite value. A finite value is
  a rational number; the doubles are the rationals \<open>is_double\<close> accepts.
\<close>

datatype jsnum = NaN | PosInf | NegInf | Fin rat

definition falsy :: "jsnum \<Rightarrow> bool" where
  "falsy n = (n = NaN \<or> n = Fin 0)"

definition isFinite :: "jsnum \<Rightarrow> bool" where
  "isFinite n = (case n of Fin _ \<Rightarrow> True | _ \<Rightarrow> False)"

text \<open>
  The operator \<^verbatim>\<open>%\<close>: the remainder has the sign of the dividend, and it is exact
  (the remainder of two doubles is a double).
\<close>

definition js_trunc :: "rat \<Rightarrow> int" where
  "js_trunc x = (if 0 \<le> x then \<lfloor>x\<rfloor> else \<lceil>x\<rceil>)"

definition js_rem :: "rat \<Rightarrow> rat \<Rightarrow> rat" where
  "js_rem a b = a - b * of_int (js_trunc (a / b))"

text \<open>
  Rounding to a double (IEEE 754 binary64, round to nearest, ties to even). \<open>bits n\<close>
  is the length of \<open>n\<close> in binary, \<open>ilog2 x\<close> the exponent \<open>e\<close> with
  \<open>2\<^sup>e \<le> x < 2\<^sup>e\<^sup>+\<^sup>1\<close>, and \<open>ulp x\<close> the distance between the doubles around \<open>x\<close>:
  53 significant bits, and \<open>2\<^sup>-\<^sup>1\<^sup>0\<^sup>7\<^sup>4\<close> below \<open>2\<^sup>-\<^sup>1\<^sup>0\<^sup>2\<^sup>2\<close>. \<open>round_double\<close> is the
  operator \<^verbatim>\<open>/\<close> of the script after the exact quotient; a result of \<open>2\<^sup>1\<^sup>0\<^sup>2\<^sup>4\<close> or more
  stands for an overflow, which the quotient of a double by 60 never is.
\<close>

function bits :: "int \<Rightarrow> nat" where
  "bits n = (if n \<le> 0 then 0 else Suc (bits (n div 2)))"
  by pat_completeness auto
termination
  by (relation "measure nat") auto

definition ilog2 :: "rat \<Rightarrow> int" where
  "ilog2 x =
     (if 1 \<le> x then int (bits \<lfloor>x\<rfloor>) - 1
      else - int (bits (\<lceil>1 / x\<rceil> - 1)))"

definition round_half_even :: "rat \<Rightarrow> int" where
  "round_half_even y =
     (let f = \<lfloor>y\<rfloor>; d = y - of_int f
      in if d < 1 / 2 then f
         else if 1 / 2 < d then f + 1
         else if even f then f else f + 1)"

definition ulp :: "rat \<Rightarrow> rat" where
  "ulp x = 2 powi (max (ilog2 x) (- 1022) - 52)"

definition round_double :: "rat \<Rightarrow> rat" where
  "round_double x =
     (if x = 0 then 0
      else if x < 0 then - (of_int (round_half_even (- x / ulp (- x))) * ulp (- x))
      else of_int (round_half_even (x / ulp x)) * ulp x)"

definition is_double :: "rat \<Rightarrow> bool" where
  "is_double x =
     (x = 0 \<or> (\<bar>x\<bar> < 2 ^ 1024 \<and> \<bar>x\<bar> / ulp \<bar>x\<bar> = of_int \<lfloor>\<bar>x\<bar> / ulp \<bar>x\<bar>\<rfloor>))"

text \<open>
  \<^verbatim>\<open>Number.prototype.toString\<close> on a Number whose value is an integer. Below \<open>2\<^sup>5\<^sup>3\<close>
  it prints the decimal digits of the integer. From there on it prints the shortest
  digit string \<open>s\<close> (\<open>k\<close> digits) for which \<open>s \<times> 10\<^sup>n\<^sup>-\<^sup>k\<close> rounds to the value, the one
  nearest to the value when there are several (the even one on a tie): followed by
  \<open>n - k\<close> zeros when \<open>n \<le> 21\<close>, in exponent notation otherwise. \<open>candidate x n k\<close> is
  the digit string with \<open>k\<close> digits, if there is one.
\<close>

function dec_digits :: "int \<Rightarrow> string" where
  "dec_digits i =
     (if i < 10 then [digit_char (nat i)]
      else dec_digits (i div 10) @ [digit_char (nat (i mod 10))])"
  by pat_completeness auto
termination
  by (relation "measure nat") auto

definition rounds_to :: "int \<Rightarrow> int \<Rightarrow> bool" where
  "rounds_to v x = (round_double (of_int v) = of_int x)"

definition candidate :: "int \<Rightarrow> nat \<Rightarrow> nat \<Rightarrow> int option" where
  "candidate x n k =
     (let p = 10 ^ (n - k); lo = x div p; hi = lo + 1;
          ok_lo = (10 ^ (k - 1) \<le> lo \<and> lo < 10 ^ k \<and> rounds_to (lo * p) x);
          ok_hi = (10 ^ (k - 1) \<le> hi \<and> hi < 10 ^ k \<and> rounds_to (hi * p) x)
      in if ok_lo \<and> ok_hi then
           (if x - lo * p < hi * p - x then Some lo
            else if hi * p - x < x - lo * p then Some hi
            else if even lo then Some lo else Some hi)
         else if ok_lo then Some lo
         else if ok_hi then Some hi
         else None)"

definition shortest :: "int \<Rightarrow> nat \<times> int \<times> nat" where
  "shortest x =
     (let n = length (dec_digits x)
      in case candidate x n 1 of
           Some s \<Rightarrow> (1, s, n)
         | None \<Rightarrow>
             (if rounds_to (10 ^ n) x then (1, 1, n + 1)
              else (case List.map_filter
                           (\<lambda>k. map_option (\<lambda>s. (k, s, n)) (candidate x n k)) [2..<n + 1] of
                      r # _ \<Rightarrow> r
                    | [] \<Rightarrow> (n, x, n))))"

definition render :: "nat \<times> int \<times> nat \<Rightarrow> string" where
  "render r =
     (case r of (k, s, n) \<Rightarrow>
        if n \<le> 21 then dec_digits s @ replicate (n - k) (CHR ''0'')
        else (let ds = dec_digits s
              in take 1 ds @ (if k = 1 then [] else CHR ''.'' # drop 1 ds) @ ''e+'' @
                 dec_digits (int n - 1)))"

definition Number_toString :: "int \<Rightarrow> string" where
  "Number_toString i =
     (if i < 0 then CHR ''-'' # (if - i < 2 ^ 53 then dec_digits (- i) else render (shortest (- i)))
      else if i < 2 ^ 53 then dec_digits i else render (shortest i))"

subsection \<open>formatTime\<close>

text \<open>
  \<^verbatim>\<open>
  function formatTime(s) {
      if (!s || !isFinite(s)) return '0:00';
      const m = Math.floor(s / 60);
      const sec = Math.floor(s % 60);
      return `${m}:${sec.toString().padStart(2, '0')}`;
  }
  \<close>
  The argument is \<open>None\<close> when the caller passes nothing (\<^verbatim>\<open>undefined\<close>).
\<close>

definition formatTime :: "jsnum option \<Rightarrow> string" where
  "formatTime s =
     (case s of
        None \<Rightarrow> ''0:00''
      | Some n \<Rightarrow>
          (if falsy n \<or> \<not> isFinite n then ''0:00''
           else (case n of
                   Fin r \<Rightarrow>
                     (let m = \<lfloor>round_double (r / 60)\<rfloor>;
                          sec = \<lfloor>js_rem r 60\<rfloor>
                      in Number_toString m @ '':'' @
                         padStart 2 (CHR ''0'') (Number_toString sec))
                 | _ \<Rightarrow> ''0:00'')))"

subsection \<open>The placeholder colour\<close>

text \<open>
  \<^verbatim>\<open>
  let hash = 0;
  for (let i = 0; i < name.length; i++) {
      hash = name.charCodeAt(i) + ((hash << 5) - hash);
  }
  const hue = Math.abs(hash) % 360;
  \<close>
  \<^verbatim>\<open>hash << 5\<close> converts \<^verbatim>\<open>hash\<close> to a signed 32-bit integer, shifts it and
  gives a signed 32-bit integer. The subtraction and the addition are those of Number:
  nothing brings their result back into 32 bits. \<^verbatim>\<open>hash\<close> is an integer
  throughout; it is exact in a double while the name has fewer than \<open>2\<^sup>2\<^sup>1\<close>
  code units, and is modelled as an unbounded integer.
\<close>

definition shl5 :: "int \<Rightarrow> int" where
  "shl5 h = sint (push_bit 5 (word_of_int h :: 32 word))"

definition hash_step :: "int \<Rightarrow> nat \<Rightarrow> int" where
  "hash_step hash c = int c + (shl5 hash - hash)"

definition hash_codes :: "nat list \<Rightarrow> int" where
  "hash_codes cs = foldl hash_step 0 cs"

definition hue_codes :: "nat list \<Rightarrow> int" where
  "hue_codes cs = \<bar>hash_codes cs\<bar> mod 360"

definition charCodes :: "string \<Rightarrow> nat list" where
  "charCodes name = map of_char name"

definition hue :: "string \<Rightarrow> int" where
  "hue name = hue_codes (charCodes name)"

definition gradient :: "int \<Rightarrow> string" where
  "gradient h =
     ''linear-gradient(135deg, hsl('' @ int_to_string h @ '', 40%, 15%), hsl(''
       @ int_to_string ((h + 60) mod 360) @ '', 30%, 10%))''"

text \<open>
  The computation in the words of the specification: hash arithmetic on 32-bit integers,
  every step taken modulo \<open>2\<^sup>3\<^sup>2\<close>, then the absolute value, then modulo 360.
\<close>

definition hash32_step :: "32 word \<Rightarrow> nat \<Rightarrow> 32 word" where
  "hash32_step h c = of_nat c + (push_bit 5 h - h)"

definition hue_wrapped32 :: "nat list \<Rightarrow> int" where
  "hue_wrapped32 cs = \<bar>sint (foldl hash32_step 0 cs)\<bar> mod 360"


subsection \<open>Strings handed to the service\<close>

text \<open>
  \<^verbatim>\<open>encodeURIComponent\<close>: the unreserved characters stand for themselves, every other
  code unit is written as the percent-escaped bytes of its UTF-8 form (one byte below
  128, two bytes from 128 to 255).
\<close>

definition uri_unreserved :: "char \<Rightarrow> bool" where
  "uri_unreserved c =
     (c \<in> set (''ABCDEFGHIJKLMNOPQRSTUVWXYZabcdefghijklmnopqrstuvwxyz0123456789-_.!~*()''
               @ [char_of (39::nat)]))"

definition hex_digit :: "nat \<Rightarrow> char" where
  "hex_digit d = ''0123456789ABCDEF'' ! d"

definition percent :: "nat \<Rightarrow> string" where
  "percent b = [CHR ''%'', hex_digit (b div 16), hex_digit (b mod 16)]"

definition utf8 :: "nat \<Rightarrow> nat list" where
  "utf8 c = (if c < 128 then [c] else [192 + c div 64, 128 + c mod 64])"

definition encodeURIComponent :: "string \<Rightarrow> string" where
  "encodeURIComponent s =
     concat (map (\<lambda>c. if uri_unreserved c then [c]
                       else concat (map percent (utf8 (of_char c)))) s)"

text \<open>
  \<^verbatim>\<open>String.prototype.trim\<close>: white space and line terminators are removed at both
  ends (among the 8-bit code units: TAB, LF, VT, FF, CR, SP and NBSP).
\<close>

definition is_space :: "char \<Rightarrow> bool" where
  "is_space c = ((of_char c :: nat) \<in> {9, 10, 11, 12, 13, 32, 160})"

definition trim :: "string \<Rightarrow> string" where
  "trim s = rev (dropWhile is_space (rev (dropWhile is_space s)))"

subsection \<open>Data of the service\<close>

record track =
  t_id :: nat
  t_title :: string
  t_filename :: string
  t_format :: string
  t_upvoted :: bool

text \<open>\<open>c_art_url\<close> is \<open>None\<close> when the field is missing or \<^verbatim>\<open>null\<close>.\<close>

record collection =
  c_id :: nat
  c_name :: string
  c_art_url :: "string option"
  c_track_count :: nat

record category =
  cat_name :: string
  cat_collection_count :: nat
  cat_track_count :: nat

text \<open>The answer of \<^verbatim>\<open>/api/player/current\<close>, \<^verbatim>\<open>next\<close> and \<^verbatim>\<open>prev\<close>.\<close>

record player_data =
  d_track :: "track option"
  d_collection :: "collection option"
  d_category_name :: string
  d_has_prev :: bool

text \<open>The answer of \<^verbatim>\<open>/api/collections/{id}\<close>.\<close>

record collection_detail =
  dt_tracks :: "track list"

subsection \<open>Requests and failures\<close>

datatype http_method = GET | POST | DELETE

type_synonym request = "http_method \<times> string"

datatype js_error = Error string | TypeError | SyntaxError

type_synonym 'a outcome = "js_error + 'a"

text \<open>
  What \<^verbatim>\<open>fetch\<close> settles with: it rejects, or it resolves with a response that has
  \<^verbatim>\<open>ok\<close>, \<^verbatim>\<open>status\<close>, \<^verbatim>\<open>statusText\<close> and a body, \<open>None\<close> for a body that
  \<^verbatim>\<open>resp.json()\<close> cannot read.
  \<^verbatim>\<open>
  const resp = await fetch(path, opts);
  if (!resp.ok) throw new Error(`API ${resp.status}: ${resp.statusText}`);
  return resp.json();
  \<close>
\<close>

datatype 'a fetched = Rejected | Response bool nat string "'a option"

definition api_settle :: "'a fetched \<Rightarrow> 'a outcome" where
  "api_settle r =
     (case r of
        Rejected \<Rightarrow> Inl TypeError
      | Response ok status statusText body \<Rightarrow>
          (if \<not> ok then Inl (Error (''API '' @ nat_to_string status @ '': '' @ statusText))
           else (case body of None \<Rightarrow> Inl SyntaxError | Some v \<Rightarrow> Inr v)))"

subsection \<open>The page\<close>

text \<open>A frame of the browse stack; the top of the stack is the last element.\<close>

datatype frame = Category string | Collection nat string

text \<open>
  A child of \<^verbatim>\<open>#browseList\<close>: a placeholder row (its icon, if any, and its text), or
  the row of a category, of a collection or of a track. A row stands for its markup
  and for its click listener (\<open>click_category\<close>, \<open>click_collection\<close>, \<open>click_track\<close>).
\<close>

datatype browse_item =
    Placeholder "string option" string
  | CategoryItem category
  | CollectionItem collection
  | TrackItem track

definition loading_item :: browse_item where
  "loading_item = Placeholder (Some ''...'') ''Loading...''"

definition failed_item :: browse_item where
  "failed_item = Placeholder (Some ''!'') ''Failed to load''"

definition none_found_item :: browse_item where
  "none_found_item = Placeholder None ''No collections found''"

datatype callback = CbLoadCurrent | CbNextTrack | CbToastHide | CbSearch string

record timer =
  tid :: nat
  remaining :: nat
  callback :: callback

text \<open>
  The variable \<^verbatim>\<open>state\<close>, the variable \<^verbatim>\<open>searchTimeout\<close>, the audio element, the
  elements of the document the script writes, and the environment: the requests handed
  to \<^verbatim>\<open>fetch\<close>, the pending timers, the console. \<open>toast_log\<close> lists the messages
  \<open>showToast\<close> was called with. \<open>breadcrumb_badge\<close> is the format whose upper-case form
  (\<^verbatim>\<open>toUpperCase\<close>) the format badge shows, \<open>None\<close> when there is no badge.
  \<open>artImg_onerror\<close> is the collection name the \<^verbatim>\<open>onerror\<close> handler of the image
  holds, \<open>canplay_listeners\<close> the number of \<^verbatim>\<open>onCanPlay\<close> listeners on the audio
  element.
\<close>

record world =
  track :: "track option"
  collection :: "collection option"
  categoryName :: string
  scope :: string
  isPlaying :: bool
  isLoading :: bool
  browseStack :: "frame list"
  searchTimeout :: "nat option"
  audio_src :: "string option"
  audio_loads :: nat
  audio_plays :: nat
  canplay_listeners :: nat
  trackTitle :: string
  collectionName :: string
  breadcrumb_text :: string
  breadcrumb_badge :: "string option"
  heartBtn_html :: string
  heartBtn_active :: bool
  prevBtn_opacity :: string
  artImg_src :: string
  artImg_display :: string
  artImg_onerror :: "string option"
  artPlaceholder_display :: string
  artBox_background :: string
  playBtn_html :: string
  loadingSpinner_display :: string
  browseOverlay_open :: bool
  browsePanel_open :: bool
  browseTitle :: string
  browseBack_display :: string
  browseSearchInput_value :: string
  browseList :: "browse_item list"
  toast_text :: string
  toast_show :: bool
  toast_log :: "string list"
  requests :: "request list"
  timers :: "timer list"
  next_timer_id :: nat
  console :: "string list"

subsection \<open>Helpers\<close>

text \<open>The part of \<^verbatim>\<open>api\<close> that runs at the call: the request goes to \<^verbatim>\<open>fetch\<close>.\<close>

definition api :: "http_method \<Rightarrow> string \<Rightarrow> world \<Rightarrow> world" where
  "api method path w = w\<lparr>requests := requests w @ [(method, path)]\<rparr>"

definition console_error :: "string \<Rightarrow> world \<Rightarrow> world" where
  "console_error msg w = w\<lparr>console := console w @ [msg]\<rparr>"

text \<open>\<^verbatim>\<open>setTimeout\<close> returns the identifier it gives the timer: \<open>next_timer_id\<close>.\<close>

definition setTimeout :: "callback \<Rightarrow> nat \<Rightarrow> world \<Rightarrow> world" where
  "setTimeout cb delay w =
     w\<lparr>timers := timers w @ [\<lparr>tid = next_timer_id w, remaining = delay, callback = cb\<rparr>],
       next_timer_id := Suc (next_timer_id w)\<rparr>"

definition clearTimeout :: "nat option \<Rightarrow> world \<Rightarrow> world" where
  "clearTimeout h w =
     (case h of
        None \<Rightarrow> w
      | Some i \<Rightarrow> w\<lparr>timers := filter (\<lambda>t. tid t \<noteq> i) (timers w)\<rparr>)"

definition setLoading :: "bool \<Rightarrow> world \<Rightarrow> world" where
  "setLoading loading w =
     w\<lparr>isLoading := loading,
       loadingSpinner_display := (if loading then ''flex'' else ''none'')\<rparr>"

definition showToast :: "string \<Rightarrow> world \<Rightarrow> world" where
  "showToast msg w =
     setTimeout CbToastHide 2500
       (w\<lparr>toast_text := msg, toast_show := True, toast_log := toast_log w @ [msg]\<rparr>)"

definition updateHeart :: "bool \<Rightarrow> world \<Rightarrow> world" where
  "updateHeart active w =
     w\<lparr>heartBtn_html := (if active then ''&#9829;'' else ''&#9825;''),
       heartBtn_active := active\<rparr>"

definition updatePlayBtn :: "world \<Rightarrow> world" where
  "updatePlayBtn w =
     w\<lparr>playBtn_html := (if isPlaying w then ''&#9646;&#9646;'' else ''&#9654;'')\<rparr>"

definition setPlaceholderColor :: "string \<Rightarrow> world \<Rightarrow> world" where
  "setPlaceholderColor name w = w\<lparr>artBox_background := gradient (hue name)\<rparr>"

subsection \<open>Player\<close>

text \<open>
  \<^verbatim>\<open>
  function loadArt(collection) {
      if (collection && collection.art_url) {
          img.src = `/api/art/${collection.id}`;
          img.style.display = 'block';  placeholder.style.display = 'none';
          img.onerror = () => { img.style.display = 'none';
              placeholder.style.display = 'block'; setPlaceholderColor(collection.name); };
      } else {
          img.style.display = 'none';  placeholder.style.display = 'block';
          setPlaceholderColor(collection ? collection.name : 'music');
      }
  }
  \<close>
\<close>

definition art_placeholder :: "string \<Rightarrow> world \<Rightarrow> world" where
  "art_placeholder name w =
     setPlaceholderColor name
       (w\<lparr>artImg_display := ''none'', artPlaceholder_display := ''block''\<rparr>)"

definition truthy_string :: "string option \<Rightarrow> bool" where
  "truthy_string v = (case v of None \<Rightarrow> False | Some u \<Rightarrow> u \<noteq> [])"

definition loadArt :: "collection option \<Rightarrow> world \<Rightarrow> world" where
  "loadArt col w =
     (case col of
        None \<Rightarrow> art_placeholder ''music'' w
      | Some c \<Rightarrow>
          (if truthy_string (c_art_url c) then
             w\<lparr>artImg_src := ''/api/art/'' @ nat_to_string (c_id c),
               artImg_display := ''block'',
               artPlaceholder_display := ''none'',
               artImg_onerror := Some (c_name c)\<rparr>
           else art_placeholder (c_name c) w))"

definition artImg_error :: "world \<Rightarrow> world" where
  "artImg_error w =
     (case artImg_onerror w of None \<Rightarrow> w | Some name \<Rightarrow> art_placeholder name w)"

text \<open>
  \<^verbatim>\<open>
  function applyPlayerState(data) {
      if (!data.track) {
          $('#trackTitle').textContent = 'No tracks available';
          $('#collectionName').textContent = 'Waiting for crawl...';
          $('#breadcrumb').textContent = '';
          return;
      }
      state.track = data.track;
      state.collection = data.collection;
      state.categoryName = data.category_name;
      $('#trackTitle').textContent = data.track.title;
      $('#collectionName').textContent = data.collection ? data.collection.name : '--';
      $('#breadcrumb').textContent = data.category_name +
          (data.collection ? ' > ' + data.collection.name : '');
      const fmt = data.track.format.toUpperCase();
      $('#breadcrumb').innerHTML += ` <span class="format-badge">${fmt}</span>`;
      updateHeart(data.track.upvoted);
      $('#prevBtn').style.opacity = data.has_prev ? '1' : '0.3';
      loadArt(data.collection);
  }
  \<close>
\<close>

definition applyPlayerState :: "player_data \<Rightarrow> world \<Rightarrow> world" where
  "applyPlayerState data w =
     (case d_track data of
        None \<Rightarrow>
          w\<lparr>trackTitle := ''No tracks available'',
            collectionName := ''Waiting for crawl...'',
            breadcrumb_text := [],
            breadcrumb_badge := None\<rparr>
      | Some t \<Rightarrow>
          (let w1 = w\<lparr>track := Some t,
                       collection := d_collection data,
                       categoryName := d_category_name data\<rparr>;
               w2 = w1\<lparr>trackTitle := t_title t,
                        collectionName :=
                          (case d_collection data of Some c \<Rightarrow> c_name c | None \<Rightarrow> ''--''),
                        breadcrumb_text :=
                          d_category_name data @
                          (case d_collection data of Some c \<Rightarrow> '' > '' @ c_name c | None \<Rightarrow> []),
                        breadcrumb_badge := Some (t_format t)\<rparr>;
               w3 = updateHeart (t_upvoted t) w2;
               w4 = w3\<lparr>prevBtn_opacity := (if d_has_prev data then ''1'' else ''0.3'')\<rparr>
           in loadArt (d_collection data) w4))"

text \<open>
  \<^verbatim>\<open>
  function playTrack() {
      if (!state.track) return;
      setLoading(true);
      audio.src = `/api/player/stream/${state.track.id}`;
      audio.load();
      const onCanPlay = () => {
          setLoading(false);
          audio.play().catch(e => console.log('Autoplay blocked:', e));
          state.isPlaying = true;
          updatePlayBtn();
          audio.removeEventListener('canplay', onCanPlay);
      };
      audio.addEventListener('canplay', onCanPlay);
  }
  \<close>
\<close>

definition playTrack :: "world \<Rightarrow> world" where
  "playTrack w =
     (case track w of
        None \<Rightarrow> w
      | Some t \<Rightarrow>
          (setLoading True w)
            \<lparr>audio_src := Some (''/api/player/stream/'' @ nat_to_string (t_id t)),
             audio_loads := Suc (audio_loads w),
             canplay_listeners := Suc (canplay_listeners w)\<rparr>)"

definition onCanPlay :: "world \<Rightarrow> world" where
  "onCanPlay w =
     (let w1 = setLoading False w;
          w2 = w1\<lparr>audio_plays := Suc (audio_plays w1), isPlaying := True\<rparr>;
          w3 = updatePlayBtn w2
      in w3\<lparr>canplay_listeners := canplay_listeners w3 - 1\<rparr>)"

text \<open>The event \<^verbatim>\<open>canplay\<close> of the audio element runs every listener it has.\<close>

definition audio_canplay :: "world \<Rightarrow> world" where
  "audio_canplay w = (onCanPlay ^^ canplay_listeners w) w"

text \<open>
  \<^verbatim>\<open>
  async function loadCurrent() {
      try {
          const data = await api('GET', '/api/player/current');
          applyPlayerState(data);
      } catch (e) {
          console.error('Failed to load current track:', e);
          setTimeout(loadCurrent, 3000);
      }
  }
  \<close>
\<close>

definition loadCurrent :: "world \<Rightarrow> world" where
  "loadCurrent w = api GET ''/api/player/current'' w"


text \<open>
  \<^verbatim>\<open>
  async function nextTrack() {
      if (state.isLoading) return;
      setLoading(true);
      try {
          const data = await api('POST', `/api/player/next?scope=${state.scope}`);
          applyPlayerState(data);
          playTrack();
      } catch (e) {
          console.error('Next failed:', e);
          showToast('Failed to load next track');
          setLoading(false);
      }
  }
  \<close>
\<close>

definition nextTrack :: "world \<Rightarrow> world" where
  "nextTrack w =
     (if isLoading w then w
      else api POST (''/api/player/next?scope='' @ scope w) (setLoading True w))"

definition nextTrack_resume :: "player_data outcome \<Rightarrow> world \<Rightarrow> world outcome" where
  "nextTrack_resume resp w =
     (case resp of
        Inr data \<Rightarrow> Inr (playTrack (applyPlayerState data w))
      | Inl e \<Rightarrow>
          Inr (setLoading False
                 (showToast ''Failed to load next track''
                    (console_error ''Next failed:'' w))))"

text \<open>
  \<^verbatim>\<open>
  async function prevTrack() {
      if (state.isLoading) return;
      setLoading(true);
      try {
          const data = await api('POST', '/api/player/prev');
          applyPlayerState(data);
          playTrack();
      } catch (e) {
          showToast('No previous track');
          setLoading(false);
      }
  }
  \<close>
\<close>

definition prevTrack :: "world \<Rightarrow> world" where
  "prevTrack w =
     (if isLoading w then w
      else api POST ''/api/player/prev'' (setLoading True w))"

definition prevTrack_resume :: "player_data outcome \<Rightarrow> world \<Rightarrow> world outcome" where
  "prevTrack_resume resp w =
     (case resp of
        Inr data \<Rightarrow> Inr (playTrack (applyPlayerState data w))
      | Inl e \<Rightarrow> Inr (setLoading False (showToast ''No previous track'' w)))"

text \<open>A run of calls of \<open>nextTrack\<close> and \<open>prevTrack\<close>, no response arriving in between.\<close>

datatype transition = Next | Prev

fun call :: "transition \<Rightarrow> world \<Rightarrow> world" where
  "call Next w = nextTrack w"
| "call Prev w = prevTrack w"

definition calls :: "transition list \<Rightarrow> world \<Rightarrow> world" where
  "calls cs w = foldl (\<lambda>w c. call c w) w cs"

text \<open>
  The listeners of the audio element for \<^verbatim>\<open>ended\<close> and \<^verbatim>\<open>error\<close>.
  \<^verbatim>\<open>
  audio.addEventListener('ended', () => {
      state.isPlaying = false;  updatePlayBtn();  nextTrack(); });
  audio.addEventListener('error', (e) => {
      console.error('Audio error:', e);  setLoading(false);
      showToast('Playback error, skipping...');  setTimeout(nextTrack, 1000); });
  \<close>
\<close>

definition audio_ended :: "world \<Rightarrow> world" where
  "audio_ended w = nextTrack (updatePlayBtn (w\<lparr>isPlaying := False\<rparr>))"

definition audio_error :: "world \<Rightarrow> world" where
  "audio_error w =
     setTimeout CbNextTrack 1000
       (showToast ''Playback error, skipping...''
          (setLoading False (console_error ''Audio error:'' w)))"

text \<open>
  \<^verbatim>\<open>
  async function toggleUpvote() {
      if (!state.track) return;
      const id = state.track.id;
      try {
          if (state.track.upvoted) {
              await api('DELETE', `/api/upvote/${id}`);
              state.track.upvoted = false;
              showToast('Removed from library');
          } else {
              await api('POST', `/api/upvote/${id}`);
              state.track.upvoted = true;
              showToast('Saved to library');
          }
          updateHeart(state.track.upvoted);
      } catch (e) {
          showToast('Upvote failed');
      }
  }
  \<close>
  \<open>toggleUpvote_resume\<close> takes the branch the call awaits in: \<open>True\<close> for the branch of
  \<^verbatim>\<open>DELETE\<close>, \<open>False\<close> for the branch of \<^verbatim>\<open>POST\<close>. It reads \<^verbatim>\<open>state.track\<close> again,
  as the script does; were it \<^verbatim>\<open>null\<close> then, the assignment would throw inside the
  \<^verbatim>\<open>try\<close>.
\<close>

definition toggleUpvote :: "world \<Rightarrow> world" where
  "toggleUpvote w =
     (case track w of
        None \<Rightarrow> w
      | Some t \<Rightarrow>
          (if t_upvoted t then api DELETE (''/api/upvote/'' @ nat_to_string (t_id t)) w
           else api POST (''/api/upvote/'' @ nat_to_string (t_id t)) w))"

definition toggleUpvote_resume :: "bool \<Rightarrow> unit outcome \<Rightarrow> world \<Rightarrow> world outcome" where
  "toggleUpvote_resume in_delete resp w =
     (case resp of
        Inl e \<Rightarrow> Inr (showToast ''Upvote failed'' w)
      | Inr _ \<Rightarrow>
          (case track w of
             None \<Rightarrow> Inr (showToast ''Upvote failed'' w)
           | Some t \<Rightarrow>
               (if in_delete then
                  (let w1 = w\<lparr>track := Some (t\<lparr>t_upvoted := False\<rparr>)\<rparr>;
                       w2 = showToast ''Removed from library'' w1
                   in Inr (updateHeart False w2))
                else
                  (let w1 = w\<lparr>track := Some (t\<lparr>t_upvoted := True\<rparr>)\<rparr>;
                       w2 = showToast ''Saved to library'' w1
                   in Inr (updateHeart True w2)))))"

subsection \<open>Browse panel\<close>

text \<open>
  \<^verbatim>\<open>
  async function loadCategories() {
      $('#browseTitle').textContent = 'Browse';
      $('#browseBack').style.display = 'none';
      $('#browseSearchInput').value = '';
      $('#browseList').innerHTML = '<div class="browse-item">...Loading...</div>';
      try {
          const cats = await api('GET', '/api/categories');
          const list = $('#browseList');
          list.innerHTML = '';
          cats.forEach(cat => { ... list.appendChild(item); });
      } catch (e) {
          $('#browseList').innerHTML = '<div class="browse-item">...Failed to load...</div>';
      }
  }
  \<close>
\<close>

definition loadCategories :: "world \<Rightarrow> world" where
  "loadCategories w =
     api GET ''/api/categories''
       (w\<lparr>browseTitle := ''Browse'',
          browseBack_display := ''none'',
          browseSearchInput_value := [],
          browseList := [loading_item]\<rparr>)"

definition loadCategories_resume :: "category list outcome \<Rightarrow> world \<Rightarrow> world outcome" where
  "loadCategories_resume resp w =
     (case resp of
        Inr cats \<Rightarrow> Inr (w\<lparr>browseList := map CategoryItem cats\<rparr>)
      | Inl e \<Rightarrow> Inr (w\<lparr>browseList := [failed_item]\<rparr>))"

text \<open>
  \<^verbatim>\<open>
  async function loadCollections(category, query) {
      $('#browseTitle').textContent = category;
      $('#browseBack').style.display = 'block';
      const list = $('#browseList');
      list.innerHTML = '<div class="browse-item">...Loading...</div>';
      try {
          let url = `/api/collections?category=${encodeURIComponent(category)}&limit=100`;
          if (query) url += `&q=${encodeURIComponent(query)}`;
          const collections = await api('GET', url);
          list.innerHTML = '';
          if (collections.length === 0) {
              list.innerHTML = '<div class="browse-item">...No collections found...</div>';
              return;
          }
          collections.forEach(col => { ... list.appendChild(item); });
      } catch (e) {
          list.innerHTML = '<div class="browse-item">...Failed to load...</div>';
      }
  }
  \<close>
  \<open>query\<close> is \<open>None\<close> when the caller passes one argument.
\<close>

definition collections_url :: "string \<Rightarrow> string option \<Rightarrow> string" where
  "collections_url category query =
     ''/api/collections?category='' @ encodeURIComponent category @ ''&limit=100'' @
     (case query of
        None \<Rightarrow> []
      | Some q \<Rightarrow> (if q \<noteq> [] then ''&q='' @ encodeURIComponent q else []))"

definition loadCollections :: "string \<Rightarrow> string option \<Rightarrow> world \<Rightarrow> world" where
  "loadCollections category query w =
     api GET (collections_url category query)
       (w\<lparr>browseTitle := category,
          browseBack_display := ''block'',
          browseList := [loading_item]\<rparr>)"

definition loadCollections_resume :: "collection list outcome \<Rightarrow> world \<Rightarrow> world outcome" where
  "loadCollections_resume resp w =
     (case resp of
        Inr collections \<Rightarrow>
          (if length collections = 0 then Inr (w\<lparr>browseList := [none_found_item]\<rparr>)
           else Inr (w\<lparr>browseList := map CollectionItem collections\<rparr>))
      | Inl e \<Rightarrow> Inr (w\<lparr>browseList := [failed_item]\<rparr>))"

text \<open>
  \<^verbatim>\<open>
  async function loadCollectionDetail(id, name) {
      $('#browseTitle').textContent = name;
      $('#browseBack').style.display = 'block';
      const list = $('#browseList');
      list.innerHTML = '<div class="browse-item">...Loading...</div>';
      try {
          const detail = await api('GET', `/api/collections/${id}`);
          list.innerHTML = '';
          detail.tracks.forEach(track => { ... list.appendChild(item); });
      } catch (e) {
          list.innerHTML = '<div class="browse-item">...Failed to load...</div>';
      }
  }
  \<close>
\<close>

definition loadCollectionDetail :: "nat \<Rightarrow> string \<Rightarrow> world \<Rightarrow> world" where
  "loadCollectionDetail cid name w =
     api GET (''/api/collections/'' @ nat_to_string cid)
       (w\<lparr>browseTitle := name,
          browseBack_display := ''block'',
          browseList := [loading_item]\<rparr>)"

definition loadCollectionDetail_resume ::
  "collection_detail outcome \<Rightarrow> world \<Rightarrow> world outcome" where
  "loadCollectionDetail_resume resp w =
     (case resp of
        Inr detail \<Rightarrow> Inr (w\<lparr>browseList := map TrackItem (dt_tracks detail)\<rparr>)
      | Inl e \<Rightarrow> Inr (w\<lparr>browseList := [failed_item]\<rparr>))"

text \<open>
  \<^verbatim>\<open>
  function openBrowse() {
      $('#browseOverlay').classList.add('open');  $('#browsePanel').classList.add('open');
      state.browseStack = [];
      loadCategories();
  }
  function closeBrowse() {
      $('#browseOverlay').classList.remove('open');  $('#browsePanel').classList.remove('open');
  }
  function browseBack() {
      state.browseStack.pop();
      if (state.browseStack.length === 0) {
          loadCategories();
      } else {
          const prev = state.browseStack[state.browseStack.length - 1];
          if (prev.type === 'category') {
              loadCollections(prev.name);
          } else if (prev.type === 'collection') {
              loadCollectionDetail(prev.id, prev.name);
          }
      }
  }
  \<close>
  \<^verbatim>\<open>pop\<close> on an empty array leaves it empty.
\<close>

definition openBrowse :: "world \<Rightarrow> world" where
  "openBrowse w =
     loadCategories (w\<lparr>browseOverlay_open := True, browsePanel_open := True, browseStack := []\<rparr>)"

definition closeBrowse :: "world \<Rightarrow> world" where
  "closeBrowse w = w\<lparr>browseOverlay_open := False, browsePanel_open := False\<rparr>"

definition browseBack :: "world \<Rightarrow> world" where
  "browseBack w =
     (let w1 = w\<lparr>browseStack := butlast (browseStack w)\<rparr>
      in if length (browseStack w1) = 0 then loadCategories w1
         else (case last (browseStack w1) of
                 Category name \<Rightarrow> loadCollections name None w1
               | Collection cid name \<Rightarrow> loadCollectionDetail cid name w1))"

text \<open>
  The click listeners of the rows.
  \<^verbatim>\<open>
  state.browseStack.push({ type: 'category', name: cat.name });  loadCollections(cat.name);
  state.browseStack.push({ type: 'collection', id: col.id, name: col.name });
  loadCollectionDetail(col.id, col.name);
  playSpecificTrack(track);  closeBrowse();
  \<close>
\<close>

definition click_category :: "category \<Rightarrow> world \<Rightarrow> world" where
  "click_category cat w =
     loadCollections (cat_name cat) None
       (w\<lparr>browseStack := browseStack w @ [Category (cat_name cat)]\<rparr>)"


text \<open>
  \<^verbatim>\<open>
  function playSpecificTrack(track) {
      state.track = track;
      $('#trackTitle').textContent = track.title;
      const fmt = track.format.toUpperCase();
      $('#breadcrumb').innerHTML = `<span class="format-badge">${fmt}</span>`;
      updateHeart(track.upvoted);
      setLoading(true);
      audio.src = `/api/player/stream/${track.id}`;
      audio.load();
      const onCanPlay = () => { ... };
      audio.addEventListener('canplay', onCanPlay);
  }
  \<close>
\<close>

definition playSpecificTrack :: "track \<Rightarrow> world \<Rightarrow> world" where
  "playSpecificTrack t w =
     (let w1 = w\<lparr>track := Some t,
                  trackTitle := t_title t,
                  breadcrumb_text := [],
                  breadcrumb_badge := Some (t_format t)\<rparr>;
          w2 = setLoading True (updateHeart (t_upvoted t) w1)
      in w2\<lparr>audio_src := Some (''/api/player/stream/'' @ nat_to_string (t_id t)),
            audio_loads := Suc (audio_loads w2),
            canplay_listeners := Suc (canplay_listeners w2)\<rparr>)"

definition click_track :: "track \<Rightarrow> world \<Rightarrow> world" where
  "click_track t w = closeBrowse (playSpecificTrack t w)"

subsection \<open>Search with debounce\<close>

text \<open>
  \<^verbatim>\<open>
  let searchTimeout;
  $('#browseSearchInput').addEventListener('input', (e) => {
      clearTimeout(searchTimeout);
      const q = e.target.value.trim();
      searchTimeout = setTimeout(() => {
          const current = state.browseStack[state.browseStack.length - 1];
          if (current && current.type === 'category') {
              loadCollections(current.name, q);
          }
      }, 300);
  });
  \<close>
  \<open>search_input v\<close> is the listener, run when the text of the field has become \<open>v\<close>;
  \<open>search_fire q\<close> is the function it hands to \<^verbatim>\<open>setTimeout\<close>.
\<close>

definition search_fire :: "string \<Rightarrow> world \<Rightarrow> world" where
  "search_fire q w =
     (if browseStack w = [] then w
      else (case last (browseStack w) of
              Category name \<Rightarrow> loadCollections name (Some q) w
            | Collection cid name \<Rightarrow> w))"

definition search_input :: "string \<Rightarrow> world \<Rightarrow> world" where
  "search_input v w =
     (let w1 = clearTimeout (searchTimeout w) (w\<lparr>browseSearchInput_value := v\<rparr>);
          q = trim v;
          w2 = setTimeout (CbSearch q) 300 w1
      in w2\<lparr>searchTimeout := Some (next_timer_id w1)\<rparr>)"

subsection \<open>Time\<close>

text \<open>
  What a timer runs when it is due, and the passing of one unit of time: every pending
  timer comes one unit closer, and the timers that are due leave the queue and run, in
  the order they were set. \<open>elapse n\<close> lets \<open>n\<close> units pass.
\<close>

fun fire :: "callback \<Rightarrow> world \<Rightarrow> world" where
  "fire CbLoadCurrent w = loadCurrent w"
| "fire CbNextTrack w = nextTrack w"
| "fire CbToastHide w = w\<lparr>toast_show := False\<rparr>"
| "fire (CbSearch q) w = search_fire q w"

definition dec :: "timer \<Rightarrow> timer" where
  "dec t = t\<lparr>remaining := remaining t - 1\<rparr>"

definition tick :: "world \<Rightarrow> world" where
  "tick w =
     (let ts = map dec (timers w);
          due = filter (\<lambda>t. remaining t = 0) ts;
          w1 = w\<lparr>timers := filter (\<lambda>t. remaining t \<noteq> 0) ts\<rparr>
      in foldl (\<lambda>w t. fire (callback t) w) w1 due)"

definition elapse :: "nat \<Rightarrow> world \<Rightarrow> world" where
  "elapse n w = (tick ^^ n) w"

text \<open>
  Typing: each keystroke comes some units of time after the one before and leaves the
  field with a new text.
\<close>

definition keystroke :: "nat \<times> string \<Rightarrow> world \<Rightarrow> world" where
  "keystroke k w = search_input (snd k) (elapse (fst k) w)"

definition typing :: "(nat \<times> string) list \<Rightarrow> world \<Rightarrow> world" where
  "typing ks w = foldl (\<lambda>w k. keystroke k w) w ks"

text \<open>The requests of a search: \<^verbatim>\<open>GET\<close> of the collections of a category.\<close>

definition is_search_request :: "request \<Rightarrow> bool" where
  "is_search_request r =
     (fst r = GET \<and> take 17 (snd r) = ''/api/collections?'')"

definition search_requests :: "world \<Rightarrow> request list" where
  "search_requests w = filter is_search_request (requests w)"

text \<open>
  The timers of the search field that are pending, and what the function handed to
  \<^verbatim>\<open>setTimeout\<close> sends when it runs with a given stack.
\<close>

fun is_search_cb :: "callback \<Rightarrow> bool" where
  "is_search_cb (CbSearch q) = True"
| "is_search_cb _ = False"

definition search_timers :: "world \<Rightarrow> timer list" where
  "search_timers w = filter (\<lambda>t. is_search_cb (callback t)) (timers w)"

definition search_request_of :: "frame list \<Rightarrow> string \<Rightarrow> request list" where
  "search_request_of st q =
     (if st = [] then []
      else (case last st of
              Category name \<Rightarrow> [(GET, collections_url name (Some q))]
            | Collection cid name \<Rightarrow> []))"

fun fired_requests :: "frame list \<Rightarrow> callback \<Rightarrow> request list" where
  "fired_requests st (CbSearch q) = search_request_of st q"
| "fired_requests st _ = []"

text \<open>
  What the listener keeps true of the timer queue: a pending timer of the search field
  is the one \<^verbatim>\<open>searchTimeout\<close> names, and identifiers handed out are below the next
  one. \<open>armed q r\<close>: one timer of the search field is pending, for the text \<open>q\<close>, with
  \<open>r\<close> units to go.
\<close>

definition debounce_inv :: "world \<Rightarrow> bool" where
  "debounce_inv w =
     ((\<forall>t \<in> set (timers w). is_search_cb (callback t) \<longrightarrow> searchTimeout w = Some (tid t)) \<and>
      (\<forall>t \<in> set (timers w). tid t < next_timer_id w))"

definition armed :: "string \<Rightarrow> nat \<Rightarrow> world \<Rightarrow> bool" where
  "armed q r w =
     ((case searchTimeout w of
         None \<Rightarrow> False
       | Some i \<Rightarrow> search_timers w = [\<lparr>tid = i, remaining = r, callback = CbSearch q\<rparr>]) \<and>
      (\<forall>t \<in> set (timers w). tid t < next_timer_id w))"

subsection \<open>The page when the script starts\<close>

text \<open>
  The variable \<^verbatim>\<open>state\<close> as the script initialises it, nothing requested, no timer
  pending. The markup of the page is not part of the script; its texts start empty here.
\<close>

definition initial :: world where
  "initial =
     \<lparr>track = None, collection = None, categoryName = [], scope = ''track'',
      isPlaying = False, isLoading = False, browseStack = [], searchTimeout = None,
      audio_src = None, audio_loads = 0, audio_plays = 0, canplay_listeners = 0,
      trackTitle = [], collectionName = [], breadcrumb_text = [], breadcrumb_badge = None,
      heartBtn_html = [], heartBtn_active = False, prevBtn_opacity = [],
      artImg_src = [], artImg_display = [], artImg_onerror = None,
      artPlaceholder_display = [], artBox_background = [], playBtn_html = [],
      loadingSpinner_display = [], browseOverlay_open = False, browsePanel_open = False,
      browseTitle = [], browseBack_display = [], browseSearchInput_value = [],
      browseList = [], toast_text = [], toast_show = False, toast_log = [],
      requests = [], timers = [], next_timer_id = 0, console = []\<rparr>"

subsection \<open>Sample data\<close>

definition some_track :: track where
  "some_track =
     \<lparr>t_id = 42, t_title = ''Space Debris'', t_filename = ''space_debris.mod'',
      t_format = ''mod'', t_upvoted = False\<rparr>"


definition some_category :: category where
  "some_category = \<lparr>cat_name = ''Artists'', cat_collection_count = 3, cat_track_count = 40\<rparr>"


section \<open>Properties\<close>

lemmas helper_defs = api_def console_error_def setTimeout_def clearTimeout_def setLoading_def
  showToast_def updateHeart_def updatePlayBtn_def setPlaceholderColor_def

subsection \<open>Failures of a request\<close>

lemma api_settle_failure:
  "(\<exists>e. api_settle r = Inl e) =
     (case r of
        Rejected \<Rightarrow> True
      | Response ok status statusText body \<Rightarrow> \<not> ok \<or> body = None)"
  by (auto simp: api_settle_def split: fetched.splits option.splits)

subsection \<open>The loading flag\<close>

lemma nextTrack_loading: "isLoading (nextTrack w)"
  by (simp add: nextTrack_def api_def setLoading_def)

lemma prevTrack_loading: "isLoading (prevTrack w)"
  by (simp add: prevTrack_def api_def setLoading_def)

lemma call_loading: "isLoading (call c w)"
  by (cases c) (simp_all add: nextTrack_loading prevTrack_loading)

lemma call_dropped: "isLoading w \<Longrightarrow> call c w = w"
  by (cases c) (simp_all add: nextTrack_def prevTrack_def)

lemma calls_dropped: "isLoading w \<Longrightarrow> calls cs w = w"
  by (induction cs) (simp_all add: calls_def call_dropped)

lemma calls_Cons: "calls (c # cs) w = call c w"
  using calls_dropped [OF call_loading, of cs c w] by (simp add: calls_def)

lemma call_requests: "\<exists>rs. requests (call c w) = requests w @ rs \<and> length rs \<le> 1"
  by (cases c) (simp_all add: nextTrack_def prevTrack_def api_def setLoading_def)

text \<open>
  C1, as the specification has it, ends with at most one transition in flight at any
  time. On the page the script starts with: \<open>nextTrack\<close> sends its request, the audio
  element reports an error before the answer is there, and the next \<open>nextTrack\<close> sends
  a second request; no answer has arrived, and two requests are out.
\<close>

theorem loading_flag_cleared_counterexample:
  "requests (nextTrack (audio_error (nextTrack initial))) =
     [(POST, ''/api/player/next?scope=track''), (POST, ''/api/player/next?scope=track'')]"
  by (simp add: nextTrack_def audio_error_def helper_defs initial_def)

text \<open>
  C1, amended. While \<open>isLoading\<close> holds, \<open>nextTrack\<close> and \<open>prevTrack\<close> return the page
  as it is: no request goes out, nothing changes, and so for every run of such calls.
  Whatever the page, a run of calls of \<open>nextTrack\<close> and \<open>prevTrack\<close> with nothing else
  in between sends at most one request: the first call that is not dropped sets the
  flag, and the calls after it are dropped. The flag is not the number of requests
  that are out: the listener for the \<^verbatim>\<open>error\<close> event of the audio element clears it
  whatever is pending, and sends no request itself; \<open>nextTrack\<close> and \<open>prevTrack\<close> send
  again after it.
\<close>

theorem loading_guard:
  "(isLoading w \<longrightarrow> nextTrack w = w \<and> prevTrack w = w \<and> calls cs w = w) \<and>
   (\<exists>rs. requests (calls cs w) = requests w @ rs \<and> length rs \<le> 1) \<and>
   \<not> isLoading (audio_error w) \<and> requests (audio_error w) = requests w \<and>
   requests (nextTrack (audio_error w)) =
     requests w @ [(POST, ''/api/player/next?scope='' @ scope w)] \<and>
   requests (prevTrack (audio_error w)) = requests w @ [(POST, ''/api/player/prev'')]"
proof (intro conjI impI)
  assume l: "isLoading w"
  show "nextTrack w = w" using l by (simp add: nextTrack_def)
  show "prevTrack w = w" using l by (simp add: prevTrack_def)
  show "calls cs w = w" using l by (rule calls_dropped)
next
  show "\<exists>rs. requests (calls cs w) = requests w @ rs \<and> length rs \<le> 1"
  proof (cases cs)
    case Nil
    then show ?thesis by (simp add: calls_def)
  next
    case (Cons c cs')
    then show ?thesis using call_requests [of c w] by (simp add: calls_Cons)
  qed
next
  show "\<not> isLoading (audio_error w)" by (simp add: audio_error_def helper_defs)
  show "requests (audio_error w) = requests w" by (simp add: audio_error_def helper_defs)
  show "requests (nextTrack (audio_error w)) =
          requests w @ [(POST, ''/api/player/next?scope='' @ scope w)]"
    by (simp add: nextTrack_def audio_error_def helper_defs)
  show "requests (prevTrack (audio_error w)) = requests w @ [(POST, ''/api/player/prev'')]"
    by (simp add: prevTrack_def audio_error_def helper_defs)
qed

theorem loading_guard_witness:
  "isLoading (nextTrack initial) \<and> nextTrack (nextTrack initial) = nextTrack initial \<and>
   prevTrack (nextTrack initial) = nextTrack initial \<and>
   calls [Prev, Next, Next] (nextTrack initial) = nextTrack initial \<and>
   requests (calls [Next, Prev, Next] initial) = [(POST, ''/api/player/next?scope=track'')]"
proof -
  have l: "isLoading (nextTrack initial)" by (rule nextTrack_loading)
  have r: "requests (calls [Next, Prev, Next] initial) =
             [(POST, ''/api/player/next?scope=track'')]"
    by (simp add: calls_Cons nextTrack_def api_def setLoading_def initial_def)
  from loading_guard [of "nextTrack initial" "[Prev, Next, Next]"] l r show ?thesis by simp
qed

subsection \<open>Failure of a transition\<close>

text \<open>
  C2. When the request of \<open>nextTrack\<close> or of \<open>prevTrack\<close> fails, the call ends normally
  (the failure stays inside), \<open>showToast\<close> has been called once, \<open>isLoading\<close> is false,
  and \<^verbatim>\<open>state.track\<close>, \<^verbatim>\<open>state.collection\<close>, \<^verbatim>\<open>state.categoryName\<close> and what
  the page shows of them are as they were.
\<close>

theorem transition_failure:
  "(\<exists>w'. nextTrack_resume (Inl e) w = Inr w' \<and>
         toast_log w' = toast_log w @ [''Failed to load next track''] \<and>
         toast_text w' = ''Failed to load next track'' \<and> toast_show w' \<and>
         \<not> isLoading w' \<and>
         track w' = track w \<and> collection w' = collection w \<and>
         categoryName w' = categoryName w \<and>
         trackTitle w' = trackTitle w \<and> collectionName w' = collectionName w \<and>
         breadcrumb_text w' = breadcrumb_text w \<and> breadcrumb_badge w' = breadcrumb_badge w \<and>
         requests w' = requests w) \<and>
   (\<exists>w'. prevTrack_resume (Inl e) w = Inr w' \<and>
         toast_log w' = toast_log w @ [''No previous track''] \<and>
         toast_text w' = ''No previous track'' \<and> toast_show w' \<and>
         \<not> isLoading w' \<and>
         track w' = track w \<and> collection w' = collection w \<and>
         categoryName w' = categoryName w \<and>
         trackTitle w' = trackTitle w \<and> collectionName w' = collectionName w \<and>
         breadcrumb_text w' = breadcrumb_text w \<and> breadcrumb_badge w' = breadcrumb_badge w \<and>
         requests w' = requests w)"
  by (simp add: nextTrack_resume_def prevTrack_resume_def helper_defs)

subsection \<open>Upvote\<close>

text \<open>
  C3. With a current track \<open>t\<close>, \<open>toggleUpvote\<close> sends \<^verbatim>\<open>POST\<close> to the upvote endpoint of
  \<open>t\<close> when \<open>t\<close> is not upvoted and \<^verbatim>\<open>DELETE\<close> when it is, and changes nothing else: the
  flag is as it was while the request is out. When the request fails, the flag stays and
  \<open>showToast\<close> is called once; when it succeeds, the flag flips.
\<close>

theorem toggleUpvote_confirms_first:
  assumes "track w = Some t"
  shows "toggleUpvote w =
           w\<lparr>requests := requests w @
               [(if t_upvoted t then DELETE else POST,
                 ''/api/upvote/'' @ nat_to_string (t_id t))]\<rparr> \<and>
         track (toggleUpvote w) = Some t \<and>
         (\<exists>w'. toggleUpvote_resume b (Inl e) w = Inr w' \<and> track w' = Some t \<and>
               heartBtn_active w' = heartBtn_active w \<and>
               toast_log w' = toast_log w @ [''Upvote failed'']) \<and>
         (\<exists>w'. toggleUpvote_resume (t_upvoted t) (Inr ()) w = Inr w' \<and>
               track w' = Some (t\<lparr>t_upvoted := \<not> t_upvoted t\<rparr>) \<and>
               heartBtn_active w' = (\<not> t_upvoted t))"
  using assms by (simp add: toggleUpvote_def toggleUpvote_resume_def helper_defs)

theorem toggleUpvote_confirms_first_witness:
  "track (initial\<lparr>track := Some some_track\<rparr>) = Some some_track \<and>
   requests (toggleUpvote (initial\<lparr>track := Some some_track\<rparr>)) = [(POST, ''/api/upvote/42'')]"
proof -
  have n: "nat_to_string 42 = ''42''" by code_simp
  have t: "track (initial\<lparr>track := Some some_track\<rparr>) = Some some_track" by simp
  from toggleUpvote_confirms_first [OF t, of False TypeError] n
  have "toggleUpvote (initial\<lparr>track := Some some_track\<rparr>) =
        (initial\<lparr>track := Some some_track\<rparr>)
          \<lparr>requests := requests (initial\<lparr>track := Some some_track\<rparr>) @
             [(POST, ''/api/upvote/42'')]\<rparr>"
    by (simp add: some_track_def)
  then have "requests (toggleUpvote (initial\<lparr>track := Some some_track\<rparr>)) =
             [(POST, ''/api/upvote/42'')]"
    by (simp add: initial_def)
  with t show ?thesis by simp
qed

subsection \<open>Loading the current track\<close>




subsection \<open>Browse stack\<close>

lemma browseStack_loadCategories [simp]: "browseStack (loadCategories w) = browseStack w"
  by (simp add: loadCategories_def api_def)

lemma browseStack_loadCollections [simp]: "browseStack (loadCollections c q w) = browseStack w"
  by (simp add: loadCollections_def api_def)

lemma browseStack_loadCollectionDetail [simp]:
  "browseStack (loadCollectionDetail i n w) = browseStack w"
  by (simp add: loadCollectionDetail_def api_def)

lemma browseStack_browseBack: "browseStack (browseBack w) = butlast (browseStack w)"
  by (simp add: browseBack_def Let_def split: frame.splits)

lemma browseBack_root:
  assumes "browseStack w = []"
  shows "browseBack w = loadCategories w"
proof -
  from assms have "w\<lparr>browseStack := []\<rparr> = w\<lparr>browseStack := browseStack w\<rparr>" by simp
  then have eq: "w\<lparr>browseStack := []\<rparr> = w" by simp
  have "browseBack w = loadCategories (w\<lparr>browseStack := []\<rparr>)"
    using assms by (simp add: browseBack_def)
  then show ?thesis by (simp only: eq)
qed




text \<open>
  C7. \<open>browseBack\<close> removes the top frame and no other. On an empty stack it is
  \<open>loadCategories\<close>: the stack stays empty and the category list is displayed (its
  request is sent). A second \<open>browseBack\<close> there changes nothing but the list of
  requests sent, which gets the request for the categories once more.
\<close>

theorem browseBack_pops_one:
  "browseStack (browseBack w) = butlast (browseStack w) \<and>
   (browseStack w \<noteq> [] \<longrightarrow>
      length (browseStack (browseBack w)) = length (browseStack w) - 1 \<and>
      browseStack w = browseStack (browseBack w) @ [last (browseStack w)]) \<and>
   (browseStack w = [] \<longrightarrow>
      browseBack w = loadCategories w \<and>
      browseStack (browseBack w) = [] \<and>
      browseBack w =
        w\<lparr>browseTitle := ''Browse'', browseBack_display := ''none'',
          browseSearchInput_value := [], browseList := [loading_item],
          requests := requests w @ [(GET, ''/api/categories'')]\<rparr> \<and>
      browseBack (browseBack w) =
        (browseBack w)\<lparr>requests := requests (browseBack w) @ [(GET, ''/api/categories'')]\<rparr>)"
proof (intro conjI impI)
  show "browseStack (browseBack w) = butlast (browseStack w)"
    by (rule browseStack_browseBack)
next
  assume "browseStack w \<noteq> []"
  then show "length (browseStack (browseBack w)) = length (browseStack w) - 1"
    and "browseStack w = browseStack (browseBack w) @ [last (browseStack w)]"
    by (simp_all add: browseStack_browseBack)
next
  assume e: "browseStack w = []"
  then show "browseBack w = loadCategories w" by (rule browseBack_root)
  from e show "browseStack (browseBack w) = []" by (simp add: browseStack_browseBack)
  from e show "browseBack w =
        w\<lparr>browseTitle := ''Browse'', browseBack_display := ''none'',
          browseSearchInput_value := [], browseList := [loading_item],
          requests := requests w @ [(GET, ''/api/categories'')]\<rparr>"
    by (simp add: browseBack_root loadCategories_def api_def)
  from e have "browseStack (browseBack w) = []" by (simp add: browseStack_browseBack)
  then have "browseBack (browseBack w) = loadCategories (browseBack w)"
    by (rule browseBack_root)
  also have "browseBack w = loadCategories w" using e by (rule browseBack_root)
  finally show "browseBack (browseBack w) =
        (browseBack w)\<lparr>requests := requests (browseBack w) @ [(GET, ''/api/categories'')]\<rparr>"
    using e by (simp add: browseBack_root loadCategories_def api_def)
qed

theorem browseBack_pops_one_witness:
  "browseStack initial = [] \<and> browseStack (browseBack initial) = [] \<and>
   requests (browseBack initial) = [(GET, ''/api/categories'')] \<and>
   browseStack (click_category some_category initial) = [Category ''Artists''] \<and>
   browseStack (browseBack (click_category some_category initial)) = []"
proof -
  have e: "browseStack initial = []" by (simp add: initial_def)
  have s: "browseStack (click_category some_category initial) = [Category ''Artists'']"
    by (simp add: click_category_def initial_def some_category_def)
  have r: "requests initial = []" by (simp add: initial_def)
  from browseBack_pops_one [of initial] e
  have "browseBack initial =
        initial\<lparr>browseTitle := ''Browse'', browseBack_display := ''none'',
          browseSearchInput_value := [], browseList := [loading_item],
          requests := requests initial @ [(GET, ''/api/categories'')]\<rparr>"
    by blast
  then have a: "browseStack (browseBack initial) = [] \<and>
           requests (browseBack initial) = [(GET, ''/api/categories'')]"
    using e r by simp
  from browseBack_pops_one [of "click_category some_category initial"] s
  have b: "browseStack (browseBack (click_category some_category initial)) = []" by simp
  from e a b s show ?thesis by simp
qed

subsection \<open>Debounced search\<close>

lemma search_url_is_search: "is_search_request (GET, collections_url name query)"
  by (simp add: is_search_request_def collections_url_def)

lemma search_requests_api:
  "search_requests (api m p w) = search_requests w @ (if is_search_request (m, p) then [(m, p)] else [])"
  by (simp add: search_requests_def api_def)

lemma fire_other:
  assumes "\<not> is_search_cb cb"
  shows "timers (fire cb w) = timers w \<and> searchTimeout (fire cb w) = searchTimeout w \<and>
         next_timer_id (fire cb w) = next_timer_id w \<and> browseStack (fire cb w) = browseStack w \<and>
         search_requests (fire cb w) = search_requests w"
proof (cases cb)
  case CbLoadCurrent
  then show ?thesis
    by (simp add: loadCurrent_def search_requests_api is_search_request_def) (simp add: api_def)
next
  case CbNextTrack
  then show ?thesis
    by (simp add: nextTrack_def search_requests_api is_search_request_def)
       (simp add: api_def setLoading_def search_requests_def)
next
  case CbToastHide
  then show ?thesis by (simp add: search_requests_def)
next
  case (CbSearch q)
  with assms show ?thesis by simp
qed

lemma fire_search:
  "timers (search_fire q w) = timers w \<and> searchTimeout (search_fire q w) = searchTimeout w \<and>
   next_timer_id (search_fire q w) = next_timer_id w \<and>
   browseStack (search_fire q w) = browseStack w \<and>
   search_requests (search_fire q w) = search_requests w @ search_request_of (browseStack w) q"
  by (simp add: search_fire_def search_request_of_def loadCollections_def search_requests_api
      search_url_is_search split: frame.splits) (simp add: api_def search_requests_def)

lemma fire_frame:
  "timers (fire cb w) = timers w \<and> searchTimeout (fire cb w) = searchTimeout w \<and>
   next_timer_id (fire cb w) = next_timer_id w \<and> browseStack (fire cb w) = browseStack w \<and>
   search_requests (fire cb w) = search_requests w @ fired_requests (browseStack w) cb"
proof (cases "is_search_cb cb")
  case True
  then obtain q where "cb = CbSearch q" by (cases cb) simp_all
  then show ?thesis using fire_search [of q w] by simp
next
  case False
  then have "fired_requests (browseStack w) cb = []" by (cases cb) simp_all
  with fire_other [OF False, of w] show ?thesis by simp
qed

lemma fire_all_frame:
  "timers (foldl (\<lambda>w t. fire (callback t) w) w due) = timers w \<and>
   searchTimeout (foldl (\<lambda>w t. fire (callback t) w) w due) = searchTimeout w \<and>
   next_timer_id (foldl (\<lambda>w t. fire (callback t) w) w due) = next_timer_id w \<and>
   browseStack (foldl (\<lambda>w t. fire (callback t) w) w due) = browseStack w \<and>
   search_requests (foldl (\<lambda>w t. fire (callback t) w) w due) =
     search_requests w @ concat (map (\<lambda>t. fired_requests (browseStack w) (callback t)) due)"
proof (induction due arbitrary: w)
  case Nil
  then show ?case by simp
next
  case (Cons t due)
  from Cons.IH [of "fire (callback t) w"] fire_frame [of "callback t" w]
  show ?case by simp
qed

lemma concat_map_filter:
  assumes "\<And>x. \<not> P x \<Longrightarrow> f x = []"
  shows "concat (map f xs) = concat (map f (filter P xs))"
  using assms by (induction xs) auto

lemma tick_frame:
  "searchTimeout (tick w) = searchTimeout w \<and> next_timer_id (tick w) = next_timer_id w \<and>
   browseStack (tick w) = browseStack w \<and>
   timers (tick w) = filter (\<lambda>t. remaining t \<noteq> 0) (map dec (timers w)) \<and>
   search_requests (tick w) =
     search_requests w @
     concat (map (\<lambda>t. fired_requests (browseStack w) (callback t))
               (filter (\<lambda>t. remaining t = 0) (map dec (search_timers w))))"
proof -
  let ?ts = "map dec (timers w)"
  let ?due = "filter (\<lambda>t. remaining t = 0) ?ts"
  let ?w1 = "w\<lparr>timers := filter (\<lambda>t. remaining t \<noteq> 0) ?ts\<rparr>"
  have t: "tick w = foldl (\<lambda>w t. fire (callback t) w) ?w1 ?due"
    by (simp add: tick_def Let_def)
  have s: "search_requests ?w1 = search_requests w" by (simp add: search_requests_def)
  have b: "browseStack ?w1 = browseStack w" by simp
  have f: "filter (\<lambda>t. is_search_cb (callback t)) ?due =
           filter (\<lambda>t. remaining t = 0) (map dec (search_timers w))"
    by (simp add: search_timers_def filter_map o_def dec_def conj_commute)
  have "concat (map (\<lambda>t. fired_requests (browseStack w) (callback t)) ?due) =
        concat (map (\<lambda>t. fired_requests (browseStack w) (callback t))
                  (filter (\<lambda>t. is_search_cb (callback t)) ?due))"
  proof (rule concat_map_filter)
    fix x :: timer
    assume "\<not> is_search_cb (callback x)"
    then show "fired_requests (browseStack w) (callback x) = []"
      by (cases "callback x") simp_all
  qed
  with f have c: "concat (map (\<lambda>t. fired_requests (browseStack w) (callback t)) ?due) =
        concat (map (\<lambda>t. fired_requests (browseStack w) (callback t))
                  (filter (\<lambda>t. remaining t = 0) (map dec (search_timers w))))"
    by simp
  have "search_requests (tick w) =
        search_requests ?w1 @ concat (map (\<lambda>t. fired_requests (browseStack ?w1) (callback t)) ?due)"
    unfolding t using fire_all_frame [of ?w1 ?due] by blast
  then have r: "search_requests (tick w) =
        search_requests w @
        concat (map (\<lambda>t. fired_requests (browseStack w) (callback t))
                  (filter (\<lambda>t. remaining t = 0) (map dec (search_timers w))))"
    by (simp only: s b c)
  have "timers (tick w) = timers ?w1 \<and> searchTimeout (tick w) = searchTimeout ?w1 \<and>
        next_timer_id (tick w) = next_timer_id ?w1 \<and> browseStack (tick w) = browseStack ?w1"
    unfolding t using fire_all_frame [of ?w1 ?due] by blast
  with r show ?thesis by simp
qed

lemma search_timers_tick:
  "search_timers (tick w) = filter (\<lambda>t. remaining t \<noteq> 0) (map dec (search_timers w))"
  using tick_frame [of w]
  by (simp add: search_timers_def filter_map o_def dec_def conj_commute)

lemma ids_tick:
  assumes "\<forall>t \<in> set (timers w). tid t < next_timer_id w"
  shows "\<forall>t \<in> set (timers (tick w)). tid t < next_timer_id (tick w)"
  using assms tick_frame [of w] by (auto simp: dec_def)

lemma tick_armed:
  assumes "armed q (Suc (Suc r)) w"
  shows "armed q (Suc r) (tick w) \<and> search_requests (tick w) = search_requests w \<and>
         browseStack (tick w) = browseStack w"
proof -
  from assms obtain i where i: "searchTimeout w = Some i"
    and st: "search_timers w = [\<lparr>tid = i, remaining = Suc (Suc r), callback = CbSearch q\<rparr>]"
    and ids: "\<forall>t \<in> set (timers w). tid t < next_timer_id w"
    by (auto simp: armed_def split: option.splits)
  have "search_timers (tick w) = [\<lparr>tid = i, remaining = Suc r, callback = CbSearch q\<rparr>]"
    by (simp add: search_timers_tick st dec_def)
  moreover have "searchTimeout (tick w) = Some i" using tick_frame [of w] i by simp
  moreover note ids_tick [OF ids]
  ultimately have "armed q (Suc r) (tick w)" by (simp add: armed_def)
  moreover have "search_requests (tick w) = search_requests w"
    using tick_frame [of w] by (simp add: st dec_def)
  moreover have "browseStack (tick w) = browseStack w" using tick_frame [of w] by simp
  ultimately show ?thesis by simp
qed

lemma elapse_Suc: "elapse (Suc n) w = tick (elapse n w)"
  by (simp add: elapse_def)

lemma elapse_armed:
  assumes "armed q r w" and "d < r"
  shows "armed q (r - d) (elapse d w) \<and> search_requests (elapse d w) = search_requests w \<and>
         browseStack (elapse d w) = browseStack w"
  using assms(2)
proof (induction d)
  case 0
  with assms(1) show ?case by (simp add: elapse_def)
next
  case (Suc d)
  then have ih: "armed q (r - d) (elapse d w)" "search_requests (elapse d w) = search_requests w"
    "browseStack (elapse d w) = browseStack w"
    by simp_all
  from Suc.prems obtain k where k: "r - d = Suc (Suc k)"
    by (metis Suc_diff_Suc Suc_lessD)
  then have k': "r - Suc d = Suc k" by simp
  from tick_armed [of q k "elapse d w"] ih k show ?case
    by (simp add: elapse_Suc k')
qed

lemma tick_fires:
  assumes "armed q (Suc 0) w"
  shows "search_timers (tick w) = [] \<and>
         search_requests (tick w) = search_requests w @ search_request_of (browseStack w) q \<and>
         browseStack (tick w) = browseStack w"
proof -
  from assms obtain i where
    st: "search_timers w = [\<lparr>tid = i, remaining = Suc 0, callback = CbSearch q\<rparr>]"
    by (auto simp: armed_def split: option.splits)
  show ?thesis using tick_frame [of w] by (simp add: search_timers_tick st dec_def)
qed

lemma armed_inv:
  assumes "armed q r w"
  shows "debounce_inv w"
proof -
  from assms obtain i where i: "searchTimeout w = Some i"
    and st: "search_timers w = [\<lparr>tid = i, remaining = r, callback = CbSearch q\<rparr>]"
    and ids: "\<forall>t \<in> set (timers w). tid t < next_timer_id w"
    by (auto simp: armed_def split: option.splits)
  have "searchTimeout w = Some (tid t)" if "t \<in> set (timers w)" "is_search_cb (callback t)" for t
  proof -
    from that have "t \<in> set (search_timers w)" by (simp add: search_timers_def)
    with st i show ?thesis by simp
  qed
  with ids show ?thesis by (simp add: debounce_inv_def)
qed

lemma search_input_arms:
  assumes "debounce_inv w"
  shows "armed (trim v) 300 (search_input v w) \<and>
         search_requests (search_input v w) = search_requests w \<and>
         browseStack (search_input v w) = browseStack w"
proof -
  let ?w1 = "clearTimeout (searchTimeout w) (w\<lparr>browseSearchInput_value := v\<rparr>)"
  from assms have none: "filter (\<lambda>t. is_search_cb (callback t)) (timers ?w1) = []"
    by (auto simp: debounce_inv_def clearTimeout_def filter_empty_conv split: option.splits)
  from assms have ids: "\<forall>t \<in> set (timers ?w1). tid t < next_timer_id w"
    by (auto simp: debounce_inv_def clearTimeout_def split: option.splits)
  have n: "next_timer_id ?w1 = next_timer_id w"
    by (simp add: clearTimeout_def split: option.splits)
  have t: "timers (search_input v w) =
           timers ?w1 @ [\<lparr>tid = next_timer_id w, remaining = 300, callback = CbSearch (trim v)\<rparr>]"
    by (simp add: search_input_def Let_def setTimeout_def n)
  have s: "searchTimeout (search_input v w) = Some (next_timer_id w)"
    by (simp add: search_input_def Let_def setTimeout_def n)
  have ni: "next_timer_id (search_input v w) = Suc (next_timer_id w)"
    by (simp add: search_input_def Let_def setTimeout_def n)
  have "armed (trim v) 300 (search_input v w)"
    using none ids by (auto simp: armed_def search_timers_def t s ni less_Suc_eq)
  moreover have "search_requests (search_input v w) = search_requests w"
    by (simp add: search_input_def Let_def setTimeout_def clearTimeout_def search_requests_def
        split: option.splits)
  moreover have "browseStack (search_input v w) = browseStack w"
    by (simp add: search_input_def Let_def setTimeout_def clearTimeout_def split: option.splits)
  ultimately show ?thesis by simp
qed

lemma typing_armed:
  assumes "armed q 300 w" and "\<forall>k \<in> set ks. fst k < 300"
  shows "armed (last (q # map (\<lambda>k. trim (snd k)) ks)) 300 (typing ks w) \<and>
         search_requests (typing ks w) = search_requests w \<and>
         browseStack (typing ks w) = browseStack w"
  using assms
proof (induction ks arbitrary: q w)
  case Nil
  then show ?case by (simp add: typing_def)
next
  case (Cons k ks)
  from Cons.prems have g: "fst k < 300" by simp
  from elapse_armed [OF Cons.prems(1) g]
  have e: "debounce_inv (elapse (fst k) w)" "search_requests (elapse (fst k) w) = search_requests w"
    "browseStack (elapse (fst k) w) = browseStack w"
    by (auto dest: armed_inv)
  from search_input_arms [OF e(1), of "snd k"] e
  have a: "armed (trim (snd k)) 300 (keystroke k w)"
    "search_requests (keystroke k w) = search_requests w"
    "browseStack (keystroke k w) = browseStack w"
    by (simp_all add: keystroke_def)
  from Cons.prems have "\<forall>k \<in> set ks. fst k < 300" by simp
  from Cons.IH [OF a(1) this] a show ?case by (simp add: typing_def)
qed

lemma tick_quiet:
  assumes "search_timers w = []"
  shows "search_timers (tick w) = [] \<and> search_requests (tick w) = search_requests w"
  using tick_frame [of w] by (simp add: search_timers_tick assms)

lemma elapse_quiet:
  assumes "search_timers w = []"
  shows "search_timers (elapse n w) = [] \<and> search_requests (elapse n w) = search_requests w"
  by (induction n) (simp_all add: elapse_def assms tick_quiet)


lemma last_trimmed:
  "last (trim v # map (\<lambda>k. trim (snd k)) ks) = trim (snd (last ((0::nat, v) # ks)))"
proof -
  have "trim v # map (\<lambda>k. trim (snd k)) ks = map (\<lambda>k. trim (snd k)) ((0::nat, v) # ks)"
    by simp
  then show ?thesis by (simp only: last_map [OF list.distinct(2)])
qed

lemma debounce_inv_initial: "debounce_inv initial"
  by (simp add: debounce_inv_def initial_def)

lemma debounce_inv_frame:
  assumes "timers w' = timers w" "searchTimeout w' = searchTimeout w"
    "next_timer_id w' = next_timer_id w"
  shows "debounce_inv w' = debounce_inv w"
  by (simp add: debounce_inv_def assms)

lemma debounce_inv_setTimeout:
  assumes "debounce_inv w" "\<not> is_search_cb cb"
  shows "debounce_inv (setTimeout cb d w)"
  using assms by (auto simp: debounce_inv_def setTimeout_def less_Suc_eq)

lemma debounce_inv_tick:
  assumes "debounce_inv w"
  shows "debounce_inv (tick w)"
  using assms tick_frame [of w] by (auto simp: debounce_inv_def dec_def)

lemma debounce_inv_search_input:
  assumes "debounce_inv w"
  shows "debounce_inv (search_input v w)"
  using search_input_arms [OF assms, of v] by (blast dest: armed_inv)

lemma debounce_inv_showToast:
  assumes "debounce_inv w"
  shows "debounce_inv (showToast msg w)"
proof -
  have "debounce_inv (w\<lparr>toast_text := msg, toast_show := True, toast_log := toast_log w @ [msg]\<rparr>)"
    using assms by (simp add: debounce_inv_def)
  then show ?thesis unfolding showToast_def by (rule debounce_inv_setTimeout) simp
qed

lemma debounce_inv_audio_error:
  assumes "debounce_inv w"
  shows "debounce_inv (audio_error w)"
proof -
  have "debounce_inv (setLoading False (console_error ''Audio error:'' w))"
    using assms by (simp add: debounce_inv_def setLoading_def console_error_def)
  then have "debounce_inv (showToast ''Playback error, skipping...''
               (setLoading False (console_error ''Audio error:'' w)))"
    by (rule debounce_inv_showToast)
  then show ?thesis unfolding audio_error_def by (rule debounce_inv_setTimeout) simp
qed

text \<open>
  C5. A keystroke in the search field, then any number of further keystrokes, each less
  than 300 units of time after the one before, then 300 units without a keystroke.
  While the typing lasts no search request is sent and the browse stack stays as it
  is. When the 300 units have passed, exactly one search request has been sent if the
  top frame is a category: the collections of that category, with the trimmed text of
  the last keystroke as \<^verbatim>\<open>q\<close> (no \<^verbatim>\<open>q\<close> when that text is empty); none has been
  sent if the stack is empty or its top is a collection. No further search request
  follows, however long one waits.
\<close>

theorem debounced_search:
  assumes "debounce_inv w" and "\<forall>k \<in> set ks. fst k < 300"
  shows "search_requests (typing ks (search_input v w)) = search_requests w \<and>
         browseStack (elapse 300 (typing ks (search_input v w))) = browseStack w \<and>
         search_requests (elapse 300 (typing ks (search_input v w))) =
           search_requests w @
           (if browseStack w = [] then []
            else (case last (browseStack w) of
                    Category name \<Rightarrow>
                      [(GET, ''/api/collections?category='' @ encodeURIComponent name @
                             ''&limit=100'' @
                             (if trim (snd (last ((0, v) # ks))) = [] then []
                              else ''&q='' @
                                   encodeURIComponent (trim (snd (last ((0, v) # ks))))))]
                  | Collection cid name \<Rightarrow> [])) \<and>
         search_requests (elapse n (elapse 300 (typing ks (search_input v w)))) =
           search_requests (elapse 300 (typing ks (search_input v w)))"
proof -
  let ?q = "trim (snd (last ((0, v) # ks)))"
  let ?w1 = "search_input v w"
  let ?w2 = "typing ks ?w1"
  from search_input_arms [OF assms(1), of v]
  have a1: "armed (trim v) 300 ?w1" and r1: "search_requests ?w1 = search_requests w"
    and b1: "browseStack ?w1 = browseStack w"
    by simp_all
  from typing_armed [OF a1 assms(2)]
  have a2: "armed ?q 300 ?w2" and r2: "search_requests ?w2 = search_requests w"
    and b2: "browseStack ?w2 = browseStack w"
    by (simp_all only: last_trimmed r1 b1)
  from elapse_armed [OF a2, of 299]
  have a3: "armed ?q (Suc 0) (elapse 299 ?w2)"
    and r3: "search_requests (elapse 299 ?w2) = search_requests w"
    and b3: "browseStack (elapse 299 ?w2) = browseStack w"
    by (simp_all add: r2 b2)
  have e: "elapse 300 ?w2 = tick (elapse 299 ?w2)"
    using elapse_Suc [of 299 ?w2] by simp
  from tick_fires [OF a3]
  have q4: "search_timers (elapse 300 ?w2) = []"
    and r4: "search_requests (elapse 300 ?w2) = search_requests w @ search_request_of (browseStack w) ?q"
    and b4: "browseStack (elapse 300 ?w2) = browseStack w"
    by (simp_all only: e r3 b3)
  from elapse_quiet [OF q4, of n]
  have r5: "search_requests (elapse n (elapse 300 ?w2)) = search_requests (elapse 300 ?w2)"
    by simp
  have u: "search_request_of (browseStack w) ?q =
           (if browseStack w = [] then []
            else (case last (browseStack w) of
                    Category name \<Rightarrow>
                      [(GET, ''/api/collections?category='' @ encodeURIComponent name @
                             ''&limit=100'' @
                             (if ?q = [] then [] else ''&q='' @ encodeURIComponent ?q))]
                  | Collection cid name \<Rightarrow> []))"
    by (simp add: search_request_of_def collections_url_def split: frame.splits)
  from r2 b4 r4 r5 show ?thesis by (simp only: u simp_thms)
qed

theorem debounced_search_witness:
  "search_requests
     (elapse 300 (typing [(100, ''ab ''), (299, '' abc '')]
        (search_input ''a'' (click_category some_category initial)))) =
   [(GET, ''/api/collections?category=Artists&limit=100''),
    (GET, ''/api/collections?category=Artists&limit=100&q=abc'')]"
proof -
  let ?w = "click_category some_category initial"
  have u: "encodeURIComponent ''Artists'' = ''Artists''" "encodeURIComponent ''abc'' = ''abc''"
    "trim '' abc '' = ''abc''"
    by code_simp+
  have i: "debounce_inv ?w"
    by (simp add: debounce_inv_def click_category_def loadCollections_def api_def initial_def)
  have g: "\<forall>k \<in> set [(100::nat, ''ab ''), (299, '' abc '')]. fst k < 300" by simp
  have s: "browseStack ?w = [Category ''Artists'']"
    by (simp add: click_category_def initial_def some_category_def)
  have r: "search_requests ?w = [(GET, ''/api/collections?category=Artists&limit=100'')]"
  proof -
    have "requests ?w = [(GET, ''/api/collections?category=Artists&limit=100'')]"
      by (simp add: click_category_def loadCollections_def api_def collections_url_def u
          some_category_def initial_def)
    then show ?thesis by (simp add: search_requests_def is_search_request_def)
  qed
  from debounced_search [OF i g, of "''a''" 0] show ?thesis
    by (simp add: s r u)
qed

subsection \<open>Empty answers\<close>

text \<open>
  C8. An empty list of collections is shown as the row \<^verbatim>\<open>No collections found\<close>.
  An empty list of categories and a collection without tracks leave \<^verbatim>\<open>#browseList\<close>
  with no row at all.
\<close>

theorem empty_answers:
  "loadCollections_resume (Inr []) w = Inr (w\<lparr>browseList := [none_found_item]\<rparr>) \<and>
   loadCategories_resume (Inr []) w = Inr (w\<lparr>browseList := []\<rparr>) \<and>
   loadCollectionDetail_resume (Inr \<lparr>dt_tracks = []\<rparr>) w = Inr (w\<lparr>browseList := []\<rparr>)"
  by (simp add: loadCollections_resume_def loadCategories_resume_def loadCollectionDetail_resume_def)

subsection \<open>Time display\<close>

declare bits.simps [simp del] dec_digits.simps [simp del]

lemma bits_bounds:
  "0 < n \<Longrightarrow> 2 ^ (bits n - 1) \<le> n \<and> n < 2 ^ bits n"
proof (induction n rule: bits.induct)
  case (1 n)
  show ?case
  proof (cases "n = 1")
    case True
    have "bits 1 = Suc 0" by (simp add: bits.simps [of 1] bits.simps [of 0])
    with True show ?thesis by simp
  next
    case False
    with "1.prems" have h: "0 < n div 2" by simp
    from "1.prems" have b: "bits n = Suc (bits (n div 2))" by (simp add: bits.simps [of n])
    from "1.IH" "1.prems" h
    have ih: "2 ^ (bits (n div 2) - 1) \<le> n div 2" "n div 2 < 2 ^ bits (n div 2)" by simp_all
    from h have p: "0 < bits (n div 2)" by (simp add: bits.simps [of "n div 2"])
    then have "(2::int) ^ bits (n div 2) = 2 * 2 ^ (bits (n div 2) - 1)"
      by (cases "bits (n div 2)") simp_all
    with ih(1) have lo: "2 ^ bits (n div 2) \<le> n" by linarith
    from ih(2) have "n < 2 * 2 ^ bits (n div 2)" by linarith
    with lo b show ?thesis by simp
  qed
qed

lemma ilog2_bounds:
  assumes "0 < x"
  shows "2 powi (ilog2 x) \<le> x \<and> x < 2 powi (ilog2 x + 1)"
proof (cases "1 \<le> x")
  case True
  then have n: "0 < \<lfloor>x\<rfloor>" by linarith
  let ?b = "bits \<lfloor>x\<rfloor>"
  from bits_bounds [OF n] have lo: "2 ^ (?b - 1) \<le> \<lfloor>x\<rfloor>" and hi: "\<lfloor>x\<rfloor> < 2 ^ ?b" by simp_all
  from n have bp: "0 < ?b" by (simp add: bits.simps [of "\<lfloor>x\<rfloor>"])
  from True have e: "ilog2 x = int (?b - 1)" using bp by (simp add: ilog2_def)
  have "(of_int (2 ^ (?b - 1)) :: rat) \<le> of_int \<lfloor>x\<rfloor>" using lo by (simp only: of_int_le_iff)
  then have a: "(2::rat) ^ (?b - 1) \<le> x" by (simp add: le_floor_iff)
  from hi have "\<lfloor>x\<rfloor> + 1 \<le> 2 ^ ?b" by simp
  then have "(of_int (\<lfloor>x\<rfloor> + 1) :: rat) \<le> of_int (2 ^ ?b)" by (simp only: of_int_le_iff)
  moreover have "x < of_int (\<lfloor>x\<rfloor> + 1)" by linarith
  ultimately have b: "x < (2::rat) ^ ?b" by simp
  have "ilog2 x + 1 = int ?b" using e bp by simp
  with a b e show ?thesis by (simp only: power_int_of_nat simp_thms)
next
  case False
  with assms have x1: "x < 1" by simp
  let ?c = "\<lceil>1 / x\<rceil>"
  let ?b = "bits (?c - 1)"
  from assms x1 have y: "1 < 1 / x" by simp
  then have c2: "0 < ?c - 1" by linarith
  from bits_bounds [OF c2] have lo: "2 ^ (?b - 1) \<le> ?c - 1" and hi: "?c - 1 < 2 ^ ?b" by simp_all
  from c2 have bp: "0 < ?b" by (simp add: bits.simps [of "?c - 1"])
  from False have e: "ilog2 x = - int ?b" by (simp add: ilog2_def)
  from hi have "?c \<le> 2 ^ ?b" by simp
  then have "(of_int ?c :: rat) \<le> of_int (2 ^ ?b)" by (simp only: of_int_le_iff)
  then have "(of_int ?c :: rat) \<le> 2 ^ ?b" by (simp only: of_int_power of_int_numeral)
  moreover have "1 / x \<le> of_int ?c" by (rule le_of_int_ceiling)
  ultimately have "1 / x \<le> (2::rat) ^ ?b" by (rule order_trans [rotated])
  with assms have "1 \<le> 2 ^ ?b * x" by (simp add: field_simps)
  then have a: "inverse ((2::rat) ^ ?b) \<le> x" by (simp add: field_simps)
  have "(of_int (2 ^ (?b - 1)) :: rat) \<le> of_int (?c - 1)" using lo by (simp only: of_int_le_iff)
  moreover have "of_int (?c - 1) < 1 / x" by linarith
  ultimately have "(2::rat) ^ (?b - 1) < 1 / x" by simp
  with assms have "x * 2 ^ (?b - 1) < 1" by (simp add: field_simps)
  then have b: "x < inverse ((2::rat) ^ (?b - 1))" by (simp add: field_simps)
  have e1: "ilog2 x + 1 = - int (?b - 1)" using e bp by simp
  show ?thesis unfolding e1 unfolding e by (simp only: power_int_minus power_int_of_nat a b simp_thms)
qed

lemma pow2_lt_imp:
  assumes "(2::rat) powi a \<le> x" "x < 2 powi b"
  shows "a < b"
proof (rule ccontr)
  assume "\<not> a < b"
  then have "b \<le> a" by simp
  then have "(2::rat) powi b \<le> 2 powi a" by (rule power_int_increasing) simp
  with assms show False by simp
qed

lemma round_half_even_ge: "\<lfloor>y\<rfloor> \<le> round_half_even y"
  by (simp add: round_half_even_def Let_def)

lemma round_half_even_less:
  assumes "y + 1 / 2 < of_int N"
  shows "round_half_even y < N"
proof -
  have f: "of_int \<lfloor>y\<rfloor> \<le> y" by simp
  show ?thesis
  proof (cases "y - of_int \<lfloor>y\<rfloor> < 1 / 2")
    case True
    then have "round_half_even y = \<lfloor>y\<rfloor>" by (simp add: round_half_even_def Let_def)
    moreover from assms f have "(of_int \<lfloor>y\<rfloor> :: rat) < of_int N" by linarith
    ultimately show ?thesis by simp
  next
    case False
    then have "round_half_even y \<le> \<lfloor>y\<rfloor> + 1" by (simp add: round_half_even_def Let_def)
    moreover from False assms have "(of_int (\<lfloor>y\<rfloor> + 1) :: rat) < of_int N" by simp
    then have "\<lfloor>y\<rfloor> + 1 < N" by (simp only: of_int_less_iff)
    ultimately show ?thesis by simp
  qed
qed


lemma pow2_Ints: "0 \<le> z \<Longrightarrow> (2::rat) powi z \<in> \<int>"
  by (simp add: power_int_def)

lemma pos_Ints_ge1:
  fixes D :: rat
  assumes "D \<in> \<int>" "0 < D"
  shows "1 \<le> D"
proof -
  from assms(1) obtain i :: int where i: "D = of_int i" by (rule Ints_cases)
  with assms(2) have "0 < i" by simp
  then have "1 \<le> i" by simp
  then have "(of_int 1 :: rat) \<le> of_int i" by (simp only: of_int_le_iff)
  with i show ?thesis by simp
qed

lemma floor_fdiv60:
  assumes d: "is_double s" and s0: "0 \<le> s" and sb: "s < 60 * 2 ^ 50"
  shows "\<lfloor>round_double (s / 60)\<rfloor> = \<lfloor>s / 60\<rfloor>"
proof (cases "s = 0")
  case True
  then show ?thesis by (simp add: round_double_def)
next
  case False
  with s0 have sp: "0 < s" by simp
  define q where "q = s / 60"
  define k where "k = \<lfloor>q\<rfloor>"
  define e where "e = ilog2 q"
  define e' where "e' = max e (- 1022)"
  define j where "j = nat (52 - e')"
  define J where "J = (2::rat) ^ j"
  define y where "y = q * J"
  define R where "R = round_half_even y"
  from sp have qp: "0 < q" by (simp add: q_def)
  from ilog2_bounds [OF qp] have eb: "2 powi e \<le> q" "q < 2 powi (e + 1)"
    by (simp_all add: e_def)
  from sb have "q < 2 powi 50" by (simp add: q_def)
  with eb(1) have e49: "e \<le> 49" using pow2_lt_imp [of e q 50] by simp
  then have e'49: "e' \<le> 49" by (simp add: e'_def)
  then have j3: "3 \<le> j" and je: "int j = 52 - e'" by (simp_all add: j_def)
  have Jp: "0 < J" by (simp add: J_def)
  have "ulp q = 2 powi (- int j)" by (simp add: ulp_def e_def e'_def je)
  then have u: "ulp q = inverse J" by (simp add: power_int_minus J_def)
  from qp have rd: "round_double q = of_int R / J"
    by (simp add: round_double_def u R_def y_def divide_inverse)
  have kq: "of_int k \<le> q" "q < of_int k + 1" unfolding k_def by linarith+
  \<comment> \<open>the rounded quotient is not below \<open>k\<close>\<close>
  have "of_int (k * 2 ^ j) = of_int k * J" by (simp add: J_def)
  also have "\<dots> \<le> y" using kq(1) Jp by (simp add: y_def)
  finally have "k * 2 ^ j \<le> \<lfloor>y\<rfloor>" by (simp add: le_floor_iff)
  with round_half_even_ge [of y] have lo: "k * 2 ^ j \<le> R" by (simp add: R_def)
  \<comment> \<open>and it is below \<open>k + 1\<close>\<close>
  have gap: "1 / 2 < (of_int (k + 1) - q) * J"
  proof (cases "e < - 1022")
    case True
    then have "e + 1 \<le> - 1" by simp
    then have "(2::rat) powi (e + 1) \<le> 2 powi (- 1)" by (rule power_int_increasing) simp
    with eb(2) have qh: "q < 1 / 2" by (simp add: power_int_minus)
    with qp have k0: "k = 0" by (simp add: k_def floor_eq_iff)
    have "(2::rat) ^ 3 \<le> 2 ^ j" using j3 by (rule power_increasing) simp
    then have "8 \<le> J" by (simp add: J_def)
    with qh have "(1 - q) * J \<ge> (1 / 2) * 8"
      by (intro mult_mono) simp_all
    with k0 show ?thesis by simp
  next
    case False
    then have e'e: "e' = e" by (simp add: e'_def)
    define es where "es = ilog2 s"
    from ilog2_bounds [OF sp] have sb2: "2 powi es \<le> s" "s < 2 powi (es + 1)"
      by (simp_all add: es_def)
    have "(2::rat) powi (e + 5) = 2 powi e * 2 powi 5" by (simp add: power_int_add)
    also have "\<dots> \<le> 60 * 2 powi e" by simp
    also have "\<dots> \<le> s" using eb(1) by (simp add: q_def)
    finally have "e + 5 < es + 1" using sb2(2) by (rule pow2_lt_imp)
    then have es5: "e + 5 \<le> es" by simp
    with False have "max es (- 1022) = es" by simp
    then have us: "ulp s = 2 powi (es - 52)" by (simp add: ulp_def es_def)
    from d sp have "s / ulp s = of_int \<lfloor>s / ulp s\<rfloor>" by (simp add: is_double_def)
    then have z1: "s / ulp s \<in> \<int>" by (metis Ints_of_int)
    have "ulp s * J / 32 = 2 powi (es - 52) * 2 powi (int j) * 2 powi (- 5)"
      by (simp add: us J_def power_int_minus)
    also have "\<dots> = 2 powi (es - 52 + int j + (- 5))"
      by (simp only: power_int_add [symmetric, OF disjI1 [OF zero_neq_numeral [symmetric]]])
    also have "es - 52 + int j + (- 5) = es - e - 5" by (simp add: je e'e)
    finally have "ulp s * J / 32 = 2 powi (es - e - 5)" .
    moreover from es5 have "(2::rat) powi (es - e - 5) \<in> \<int>" by (intro pow2_Ints) simp
    ultimately have z2: "ulp s * J / 32 \<in> \<int>" by simp
    have up: "ulp s \<noteq> 0" by (simp add: us)
    have "s * J / 32 = (s / ulp s) * (ulp s * J / 32)" using up by simp
    with z1 z2 have z3: "s * J / 32 \<in> \<int>" by (simp only: Ints_mult)
    from j3 obtain m where m: "j = 3 + m" by (auto simp: le_iff_add)
    have "(2::rat) ^ j = 8 * 2 ^ m" unfolding m by (simp add: power_add)
    then have "60 * of_int (k + 1) * J / 32 = of_int (15 * (k + 1) * 2 ^ m)"
      by (simp add: J_def)
    then have z4: "60 * of_int (k + 1) * J / 32 \<in> \<int>" by (metis Ints_of_int)
    define D where "D = (60 * of_int (k + 1) - s) * J / 32"
    have "D = 60 * of_int (k + 1) * J / 32 - s * J / 32" by (simp add: D_def algebra_simps diff_divide_distrib)
    with z3 z4 have "D \<in> \<int>" by (simp only: Ints_diff)
    moreover have "0 < D" using kq(2) Jp by (simp add: D_def q_def)
    ultimately have "1 \<le> D" by (rule pos_Ints_ge1)
    then have "32 \<le> (60 * of_int (k + 1) - s) * J" by (simp add: D_def)
    then have "32 / 60 \<le> (60 * of_int (k + 1) - s) * J / 60"
      by (rule divide_right_mono) simp
    then have h: "1 / 2 < (60 * of_int (k + 1) - s) * J / 60" by linarith
    have eq: "(of_int (k + 1) - q) * J = (60 * of_int (k + 1) - s) * J / 60"
      by (simp add: q_def algebra_simps diff_divide_distrib)
    from h show ?thesis by (simp only: eq)
  qed
  have "y + 1 / 2 < of_int ((k + 1) * 2 ^ j)"
    using gap by (simp add: y_def J_def algebra_simps)
  then have hi: "R < (k + 1) * 2 ^ j" unfolding R_def by (rule round_half_even_less)
  have "\<lfloor>of_int R / J\<rfloor> = k"
  proof (rule floor_unique)
    from lo have "(of_int (k * 2 ^ j) :: rat) \<le> of_int R" by (simp only: of_int_le_iff)
    then show "of_int k \<le> of_int R / J" using Jp by (simp add: J_def field_simps)
    from hi have "(of_int R :: rat) < of_int ((k + 1) * 2 ^ j)" by (simp only: of_int_less_iff)
    then show "of_int R / J < of_int k + 1" using Jp by (simp add: J_def field_simps)
  qed
  then show ?thesis by (simp add: rd [unfolded q_def] k_def q_def)
qed

lemma dec_digits_one: "0 \<le> i \<Longrightarrow> i < 10 \<Longrightarrow> dec_digits i = [digit_char (nat i)]"
  by (simp add: dec_digits.simps [of i])

lemma dec_digits_two:
  assumes "10 \<le> i" "i < 100"
  shows "dec_digits i = [digit_char (nat i div 10), digit_char (nat i mod 10)]"
proof -
  from assms have "dec_digits (i div 10) = [digit_char (nat (i div 10))]"
    by (intro dec_digits_one) simp_all
  moreover from assms have "nat (i div 10) = nat i div 10" "nat (i mod 10) = nat i mod 10"
    by (simp_all add: nat_div_distrib nat_mod_distrib)
  ultimately show ?thesis using assms by (simp add: dec_digits.simps [of i])
qed

lemma dec_digits_nat: "0 \<le> i \<Longrightarrow> dec_digits i = nat_to_string (nat i)"
proof (induction i rule: dec_digits.induct)
  case (1 i)
  show ?case
  proof (cases "i < 10")
    case True
    with "1.prems" show ?thesis by (simp add: dec_digits.simps [of i])
  next
    case False
    with "1.IH" "1.prems" have "dec_digits (i div 10) = nat_to_string (nat (i div 10))" by simp
    moreover from False have "nat (i div 10) = nat i div 10" "nat (i mod 10) = nat i mod 10"
      by (simp_all add: nat_div_distrib nat_mod_distrib)
    moreover from False have "\<not> nat i < 10" by simp
    ultimately show ?thesis using False
      by (simp add: dec_digits.simps [of i] nat_to_string.simps [of "nat i"]
          del: nat_to_string.simps)
  qed
qed

lemma digit_char_0: "digit_char 0 = CHR ''0''"
  by code_simp

lemma Number_toString_small:
  "0 \<le> i \<Longrightarrow> i < 2 ^ 53 \<Longrightarrow> Number_toString i = dec_digits i"
  by (simp add: Number_toString_def)

lemma pad_seconds:
  assumes "0 \<le> i" "i < 60"
  shows "padStart 2 (CHR ''0'') (Number_toString i) =
         [digit_char (nat i div 10), digit_char (nat i mod 10)]"
proof -
  from assms have n: "Number_toString i = dec_digits i"
    by (intro Number_toString_small) simp_all
  show ?thesis
  proof (cases "i < 10")
    case True
    with assms show ?thesis by (simp add: n padStart_def dec_digits_one digit_char_0)
  next
    case False
    with assms show ?thesis by (simp add: n padStart_def dec_digits_two)
  qed
qed

lemma floor_div_60:
  fixes r :: rat
  shows "\<lfloor>r / 60\<rfloor> = \<lfloor>r\<rfloor> div 60"
proof (rule floor_unique)
  have "of_int (60 * (\<lfloor>r\<rfloor> div 60)) \<le> (of_int \<lfloor>r\<rfloor> :: rat)"
    by simp
  also have "\<dots> \<le> r" by simp
  finally show "of_int (\<lfloor>r\<rfloor> div 60) \<le> r / 60" by simp
next
  have "\<lfloor>r\<rfloor> < 60 * (\<lfloor>r\<rfloor> div 60) + 60"
    using pos_mod_bound [of 60 "\<lfloor>r\<rfloor>"] by (simp add: algebra_simps minus_mult_div_eq_mod [symmetric])
  then have "\<lfloor>r\<rfloor> + 1 \<le> 60 * (\<lfloor>r\<rfloor> div 60) + 60" by simp
  then have "(of_int (\<lfloor>r\<rfloor> + 1) :: rat) \<le> of_int (60 * (\<lfloor>r\<rfloor> div 60) + 60)"
    by (simp only: of_int_le_iff)
  moreover have "r < of_int (\<lfloor>r\<rfloor> + 1)" by linarith
  ultimately have "r < of_int (60 * (\<lfloor>r\<rfloor> div 60) + 60)" by linarith
  then show "r / 60 < of_int (\<lfloor>r\<rfloor> div 60) + 1" by simp
qed

lemma js_rem_nonneg:
  fixes r :: rat
  assumes "0 \<le> r"
  shows "js_rem r 60 = r - 60 * of_int \<lfloor>r / 60\<rfloor>"
  using assms by (simp add: js_rem_def js_trunc_def)

lemma floor_rem_60:
  fixes r :: rat
  shows "\<lfloor>r - 60 * of_int \<lfloor>r / 60\<rfloor>\<rfloor> = \<lfloor>r\<rfloor> mod 60"
proof -
  have "r - 60 * of_int \<lfloor>r / 60\<rfloor> = r - of_int (60 * (\<lfloor>r\<rfloor> div 60))"
    by (simp add: floor_div_60)
  then have "\<lfloor>r - 60 * of_int \<lfloor>r / 60\<rfloor>\<rfloor> = \<lfloor>r\<rfloor> - 60 * (\<lfloor>r\<rfloor> div 60)"
    by (simp only: floor_diff_of_int)
  then show ?thesis by (simp add: minus_mult_div_eq_mod)
qed

lemma formatTime_finite:
  fixes r :: rat
  assumes "0 \<le> r"
  shows "formatTime (Some (Fin r)) =
         Number_toString \<lfloor>round_double (r / 60)\<rfloor> @ '':'' @
         [digit_char (nat \<lfloor>r - 60 * of_int \<lfloor>r / 60\<rfloor>\<rfloor> div 10),
          digit_char (nat \<lfloor>r - 60 * of_int \<lfloor>r / 60\<rfloor>\<rfloor> mod 10)]"
proof (cases "r = 0")
  case True
  have "Number_toString 0 = ''0''"
    by (simp add: Number_toString_def dec_digits.simps [of 0] digit_char_0)
  with True show ?thesis
    by (simp add: formatTime_def falsy_def round_double_def digit_char_0)
next
  case False
  let ?sec = "\<lfloor>r - 60 * of_int \<lfloor>r / 60\<rfloor>\<rfloor>"
  have sec: "?sec = \<lfloor>r\<rfloor> mod 60" by (rule floor_rem_60)
  have s0: "0 \<le> ?sec" unfolding sec by simp
  have s60: "?sec < 60" unfolding sec by simp
  from False have "formatTime (Some (Fin r)) =
      Number_toString \<lfloor>round_double (r / 60)\<rfloor> @ '':'' @
      padStart 2 (CHR ''0'') (Number_toString \<lfloor>js_rem r 60\<rfloor>)"
    by (simp add: formatTime_def falsy_def isFinite_def Let_def)
  also have "\<lfloor>js_rem r 60\<rfloor> = ?sec" using assms by (simp only: js_rem_nonneg)
  finally show ?thesis by (simp only: pad_seconds [OF s0 s60])
qed

text \<open>
  C9, as the specification has it, gives the minutes as \<open>\<lfloor>s / 60\<rfloor>\<close> for every finite
  \<open>s \<ge> 0\<close>. At the double 67553994410557496, which is \<open>60 \<times> 2\<^sup>5\<^sup>0 + 56\<close>, the quotient
  \<open>2\<^sup>5\<^sup>0 + 56/60\<close> lies between the doubles \<open>2\<^sup>5\<^sup>0 + 3/4\<close> and \<open>2\<^sup>5\<^sup>0 + 1\<close> and rounds to the
  second: \<open>formatTime\<close> prints 1125899906842625 minutes, and \<open>\<lfloor>s / 60\<rfloor>\<close> is
  1125899906842624.
\<close>

theorem formatTime_minutes_counterexample:
  "is_double 67553994410557496 \<and>
   formatTime (Some (Fin 67553994410557496)) = ''1125899906842625:56'' \<and>
   dec_digits \<lfloor>(67553994410557496 :: rat) / 60\<rfloor> = ''1125899906842624''"
  by code_simp

text \<open>
  C9, amended. \<open>formatTime\<close> gives \<^verbatim>\<open>0:00\<close> for a missing argument, for zero, for NaN
  and for the infinities. For a finite \<open>r \<ge> 0\<close> it gives the minutes, a colon, and the
  two digits of \<open>\<lfloor>r mod 60\<rfloor>\<close>, which lies between 0 and 59; the minutes are the floor of
  the quotient \<open>r / 60\<close> rounded to a double, as \<^verbatim>\<open>toString\<close> prints it. For a double
  \<open>r\<close> below \<open>60 \<times> 2\<^sup>5\<^sup>0\<close> the rounding does not reach the next integer, and the minutes
  are the decimal digits of \<open>\<lfloor>r / 60\<rfloor>\<close>.
\<close>

theorem formatTime_shape:
  "formatTime None = ''0:00'' \<and>
   formatTime (Some (Fin 0)) = ''0:00'' \<and>
   formatTime (Some NaN) = ''0:00'' \<and>
   formatTime (Some PosInf) = ''0:00'' \<and>
   formatTime (Some NegInf) = ''0:00'' \<and>
   (0 \<le> r \<longrightarrow>
      0 \<le> \<lfloor>r - 60 * of_int \<lfloor>r / 60\<rfloor>\<rfloor> \<and> \<lfloor>r - 60 * of_int \<lfloor>r / 60\<rfloor>\<rfloor> < 60 \<and>
      formatTime (Some (Fin r)) =
        Number_toString \<lfloor>round_double (r / 60)\<rfloor> @ '':'' @
        [digit_char (nat \<lfloor>r - 60 * of_int \<lfloor>r / 60\<rfloor>\<rfloor> div 10),
         digit_char (nat \<lfloor>r - 60 * of_int \<lfloor>r / 60\<rfloor>\<rfloor> mod 10)]) \<and>
   (0 \<le> r \<longrightarrow> is_double r \<longrightarrow> r < 60 * 2 ^ 50 \<longrightarrow>
      \<lfloor>round_double (r / 60)\<rfloor> = \<lfloor>r / 60\<rfloor> \<and>
      formatTime (Some (Fin r)) =
        dec_digits \<lfloor>r / 60\<rfloor> @ '':'' @
        [digit_char (nat \<lfloor>r - 60 * of_int \<lfloor>r / 60\<rfloor>\<rfloor> div 10),
         digit_char (nat \<lfloor>r - 60 * of_int \<lfloor>r / 60\<rfloor>\<rfloor> mod 10)])"
proof (intro conjI impI)
  show "formatTime None = ''0:00''" by (simp add: formatTime_def)
  show "formatTime (Some (Fin 0)) = ''0:00''" by (simp add: formatTime_def falsy_def)
  show "formatTime (Some NaN) = ''0:00''" by (simp add: formatTime_def falsy_def)
  show "formatTime (Some PosInf) = ''0:00''" by (simp add: formatTime_def isFinite_def)
  show "formatTime (Some NegInf) = ''0:00''" by (simp add: formatTime_def isFinite_def)
next
  assume r: "0 \<le> r"
  have sec: "\<lfloor>r - 60 * of_int \<lfloor>r / 60\<rfloor>\<rfloor> = \<lfloor>r\<rfloor> mod 60" by (rule floor_rem_60)
  show "0 \<le> \<lfloor>r - 60 * of_int \<lfloor>r / 60\<rfloor>\<rfloor>" unfolding sec by simp
  show "\<lfloor>r - 60 * of_int \<lfloor>r / 60\<rfloor>\<rfloor> < 60" unfolding sec by simp
  from r show "formatTime (Some (Fin r)) =
        Number_toString \<lfloor>round_double (r / 60)\<rfloor> @ '':'' @
        [digit_char (nat \<lfloor>r - 60 * of_int \<lfloor>r / 60\<rfloor>\<rfloor> div 10),
         digit_char (nat \<lfloor>r - 60 * of_int \<lfloor>r / 60\<rfloor>\<rfloor> mod 10)]"
    by (rule formatTime_finite)
next
  assume r: "0 \<le> r" and d: "is_double r" and b: "r < 60 * 2 ^ 50"
  from d r b show m: "\<lfloor>round_double (r / 60)\<rfloor> = \<lfloor>r / 60\<rfloor>" by (rule floor_fdiv60)
  from r have m0: "0 \<le> \<lfloor>r / 60\<rfloor>" by simp
  from b have "r / 60 < 2 ^ 50" by simp
  then have "\<lfloor>r / 60\<rfloor> < 2 ^ 50" by (simp add: floor_less_iff)
  then have m53: "\<lfloor>r / 60\<rfloor> < 2 ^ 53" by simp
  from formatTime_finite [OF r] show "formatTime (Some (Fin r)) =
        dec_digits \<lfloor>r / 60\<rfloor> @ '':'' @
        [digit_char (nat \<lfloor>r - 60 * of_int \<lfloor>r / 60\<rfloor>\<rfloor> div 10),
         digit_char (nat \<lfloor>r - 60 * of_int \<lfloor>r / 60\<rfloor>\<rfloor> mod 10)]"
    by (simp only: m Number_toString_small [OF m0 m53])
qed

theorem formatTime_shape_witness:
  "(0::rat) \<le> 125 \<and> is_double 125 \<and> (125::rat) < 60 * 2 ^ 50 \<and>
   formatTime (Some (Fin 125)) = ''2:05''"
proof -
  have h: "(0::rat) \<le> 125" "(125::rat) < 60 * 2 ^ 50" by simp_all
  have d: "is_double 125" by code_simp
  have v: "dec_digits \<lfloor>(125::rat) / 60\<rfloor> @ '':'' @
        [digit_char (nat \<lfloor>(125::rat) - 60 * of_int \<lfloor>(125::rat) / 60\<rfloor>\<rfloor> div 10),
         digit_char (nat \<lfloor>(125::rat) - 60 * of_int \<lfloor>(125::rat) / 60\<rfloor>\<rfloor> mod 10)] = ''2:05''"
    by code_simp
  from formatTime_shape [of 125] h d
  have "formatTime (Some (Fin 125)) =
        dec_digits \<lfloor>(125::rat) / 60\<rfloor> @ '':'' @
        [digit_char (nat \<lfloor>(125::rat) - 60 * of_int \<lfloor>(125::rat) / 60\<rfloor>\<rfloor> div 10),
         digit_char (nat \<lfloor>(125::rat) - 60 * of_int \<lfloor>(125::rat) / 60\<rfloor>\<rfloor> mod 10)]"
    by blast
  with v h d show ?thesis by (simp only: simp_thms)
qed

subsection \<open>Placeholder colour\<close>

lemma hash_codes_snoc: "hash_codes (cs @ [c]) = hash_step (hash_codes cs) c"
  by (simp add: hash_codes_def)

lemma hash_codes_word: "(word_of_int (hash_codes cs) :: 32 word) = foldl hash32_step 0 cs"
proof (induction cs rule: rev_induct)
  case Nil
  then show ?case by (simp add: hash_codes_def)
next
  case (snoc c cs)
  have "(word_of_int (hash_step (hash_codes cs) c) :: 32 word) =
        hash32_step (word_of_int (hash_codes cs)) c"
    by (simp add: hash_step_def hash32_step_def shl5_def)
  with snoc show ?case by (simp add: hash_codes_snoc)
qed

text \<open>
  C10, as the specification has it, takes the hash in 32-bit arithmetic modulo \<open>2\<^sup>3\<^sup>2\<close>.
  For the name \<^verbatim>\<open>abcdefg\<close> the script computes the hue 140, and the hash taken modulo
  \<open>2\<^sup>3\<^sup>2\<close> at every step gives 116.
\<close>

theorem hue_counterexample:
  "hue ''abcdefg'' = 140 \<and> hue_wrapped32 (charCodes ''abcdefg'') = 116"
  by code_simp

text \<open>
  C10, amended. For every name the hue lies in \<open>[0, 360)\<close>, and the gradient
  \<open>setPlaceholderColor\<close> sets depends on the name alone. The hue is the absolute value
  of the hash modulo 360, where each step of the hash takes only the shift in signed
  32-bit arithmetic and neither the subtraction nor the addition; the hash so computed
  agrees modulo \<open>2\<^sup>3\<^sup>2\<close> with the hash of 32-bit arithmetic.
\<close>

theorem hue_range:
  "0 \<le> hue_codes cs \<and> hue_codes cs < 360 \<and>
   0 \<le> hue name \<and> hue name < 360 \<and>
   artBox_background (setPlaceholderColor name w) = gradient (hue name) \<and>
   hue_codes cs = \<bar>hash_codes cs\<bar> mod 360 \<and>
   hash_codes [] = 0 \<and>
   hash_codes (cs @ [c]) =
     int c + (sint (push_bit 5 (word_of_int (hash_codes cs) :: 32 word)) - hash_codes cs) \<and>
   (word_of_int (hash_codes cs) :: 32 word) = foldl hash32_step 0 cs"
  by (simp add: hue_def hue_codes_def setPlaceholderColor_def hash_codes_snoc hash_step_def
      shl5_def hash_codes_word) (simp add: hash_codes_def)

end
